theory Spec2Isabelle
  imports Complex_Main
begin

section \<open>Strings\<close>

text \<open>
  A JavaScript string is modelled as a list of 8-bit characters, read as the code units
  U+0000 .. U+00FF. On that range \<open>String.prototype.toLowerCase\<close> moves the letters
  A-Z and the Latin-1 capitals U+00C0 .. U+00DE (the multiplication sign U+00D7 apart) up by 32,
  and \<open>String.prototype.trim\<close> strips TAB, LF, VT, FF, CR, SPACE and NBSP at both ends.
  Code units above U+00FF are outside the model.
\<close>

definition code_unit :: "char \<Rightarrow> nat" where
  "code_unit c = of_char c"

definition toLowerCase_char :: "char \<Rightarrow> char" where
  "toLowerCase_char c =
     (let n = code_unit c
      in if (65 \<le> n \<and> n \<le> 90) \<or> (192 \<le> n \<and> n \<le> 222 \<and> n \<noteq> 215)
         then char_of (n + 32) else c)"

definition toLowerCase :: "string \<Rightarrow> string" where
  "toLowerCase s = map toLowerCase_char s"

definition is_white :: "char \<Rightarrow> bool" where
  "is_white c = (code_unit c \<in> {9, 10, 11, 12, 13, 32, 160})"

definition trim :: "string \<Rightarrow> string" where
  "trim s = rev (dropWhile is_white (rev (dropWhile is_white s)))"

text \<open>\<open>s.slice(0, n)\<close> on a string.\<close>

definition slice0 :: "nat \<Rightarrow> string \<Rightarrow> string" where
  "slice0 n s = take n s"

text \<open>The character classes of the regular expressions in the source.\<close>

definition is_lower_az :: "char \<Rightarrow> bool" where
  "is_lower_az c = (97 \<le> code_unit c \<and> code_unit c \<le> 122)"

definition is_digit :: "char \<Rightarrow> bool" where
  "is_digit c = (48 \<le> code_unit c \<and> code_unit c \<le> 57)"

text \<open>\<open>[a-z0-9_]\<close>\<close>

definition username_char :: "char \<Rightarrow> bool" where
  "username_char c = (is_lower_az c \<or> is_digit c \<or> c = CHR ''_'')"

text \<open>\<open>[a-z0-9_-]\<close>\<close>

definition slug_char :: "char \<Rightarrow> bool" where
  "slug_char c = (is_lower_az c \<or> is_digit c \<or> c = CHR ''_'' \<or> c = CHR ''-'')"

text \<open>
  Matching under the \<open>i\<close> flag (without \<open>u\<close>): a code unit above U+007F never matches an
  ASCII pattern character, so only A-Z are folded.
\<close>

definition fold_ascii :: "char \<Rightarrow> char" where
  "fold_ascii c =
     (let n = code_unit c in if 65 \<le> n \<and> n \<le> 90 then char_of (n + 32) else c)"

text \<open>\<open>pat\<close> (lower case) matches at the start of \<open>s\<close>, ignoring ASCII case.\<close>

definition starts_ci :: "string \<Rightarrow> string \<Rightarrow> bool" where
  "starts_ci pat s = (length pat \<le> length s \<and> map fold_ascii (take (length pat) s) = pat)"

text \<open>Decimal rendering of a non-negative integer, as a template literal produces it.\<close>

definition digit_char :: "nat \<Rightarrow> char" where
  "digit_char d = char_of (48 + d)"

fun dec :: "nat \<Rightarrow> string" where
  "dec n = (if n < 10 then [digit_char n] else dec (n div 10) @ [digit_char (n mod 10)])"

declare dec.simps [simp del]

text \<open>\<open>a || b\<close> on a possibly missing string field: the empty string is falsy.\<close>

definition or_str :: "string option \<Rightarrow> string \<Rightarrow> string" where
  "or_str a b = (case a of None \<Rightarrow> b | Some s \<Rightarrow> if s = [] then b else s)"

section \<open>db.js: pure helpers\<close>

definition normalizeSlug :: "string \<Rightarrow> string" where
  "normalizeSlug s = slice0 32 (filter slug_char (trim (toLowerCase s)))"

text \<open>
  \<open>sanitizeCss\<close>: each \<open>replace\<close> with a global, case-insensitive pattern removes the
  non-overlapping matches found in one left-to-right scan. \<open>skip\<close> counts the characters of
  the current match that are still to be dropped.
\<close>

fun remove_ci :: "string \<Rightarrow> nat \<Rightarrow> string \<Rightarrow> string" where
  "remove_ci pat skip [] = []"
| "remove_ci pat (Suc k) (c # cs) = remove_ci pat k cs"
| "remove_ci pat 0 (c # cs) =
     (if starts_ci pat (c # cs) then remove_ci pat (length pat - 1) cs
      else c # remove_ci pat 0 cs)"

definition sanitizeCss :: "string \<Rightarrow> string" where
  "sanitizeCss css =
     (let css = remove_ci ''</style'' 0 css;
          css = remove_ci ''<script'' 0 css;
          css = remove_ci ''@import'' 0 css
      in slice0 6000 css)"

text \<open>
  \<open>clamp(n, a, b)\<close>: \<open>Number(n)\<close> is a primitive of the language; its result is taken as an
  optional rational, \<open>None\<close> for NaN.
\<close>

definition clamp :: "rat option \<Rightarrow> rat \<Rightarrow> rat \<Rightarrow> rat" where
  "clamp n a b = (case n of None \<Rightarrow> a | Some x \<Rightarrow> max a (min b x))"

section \<open>server.js: validation\<close>

definition uniqueSlug :: "string \<Rightarrow> string" where
  "uniqueSlug base = (let base = normalizeSlug base in if base = [] then ''user'' else base)"

text \<open>\<open>/^[a-z0-9_]{3,20}$/\<close>\<close>

definition validateUsername :: "string \<Rightarrow> string option" where
  "validateUsername u =
     (let u = trim (toLowerCase u)
      in if 3 \<le> length u \<and> length u \<le> 20 \<and> list_all username_char u then Some u else None)"

text \<open>\<open>/^[a-z0-9_-]{2,32}$/\<close>\<close>

definition validateSlug :: "string \<Rightarrow> string option" where
  "validateSlug s =
     (let s = normalizeSlug s
      in if 2 \<le> length s \<and> length s \<le> 32 \<and> list_all slug_char s then Some s else None)"

text \<open>\<open>/^https?:\/\//i\<close>\<close>

definition http_scheme :: "string \<Rightarrow> bool" where
  "http_scheme s = (starts_ci ''http://'' s \<or> starts_ci ''https://'' s)"

definition validateUrl :: "string \<Rightarrow> string" where
  "validateUrl s =
     (let s = trim s
      in if s = [] then [] else if \<not> http_scheme s then [] else slice0 400 s)"

section \<open>The link list of a page edit\<close>

text \<open>
  A parsed request body is a finite map from field names to strings (the values a form
  submission yields).
\<close>

type_synonym body = "string \<Rightarrow> string option"

record link =
  link_label :: string
  link_url :: string

definition body_label :: "body \<Rightarrow> nat \<Rightarrow> string" where
  "body_label b i = slice0 32 (trim (or_str (b (''label_'' @ dec i)) []))"

definition body_url :: "body \<Rightarrow> nat \<Rightarrow> string" where
  "body_url b i = validateUrl (or_str (b (''url_'' @ dec i)) [])"

text \<open>The \<open>for\<close> loop of \<open>savePageForUser\<close>, lines 237-244.\<close>

function collectLinks :: "body \<Rightarrow> nat \<Rightarrow> link list \<Rightarrow> link list" where
  "collectLinks b i links =
     (if i < 14 then
        (let label = body_label b i; url = body_url b i
         in if label = [] \<and> url = [] then collectLinks b (i + 1) links
            else if url = [] then collectLinks b (i + 1) links
            else collectLinks b (i + 1)
                   (links @ [\<lparr>link_label = or_str (Some label) ''Link'', link_url = url\<rparr>]))
      else links)"
  by pat_completeness auto
termination
  by (relation "measure (\<lambda>(b, i, links). 14 - i)") auto

declare collectLinks.simps [simp del]

section \<open>db.js: the tables\<close>

text \<open>
  One record per table of \<open>migrate\<close>. Row ids are SQLite integers. \<open>banned\<close> holds 0 or 1
  and is only ever tested for truthiness. \<open>links_json\<close> is written by \<open>JSON.stringify\<close> and
  read again by \<open>JSON.parse\<close>; the column is modelled by the list it encodes. \<open>song_volume\<close>
  is a REAL column, modelled by a rational.
\<close>

record user =
  user_id :: int
  username :: string
  password_hash :: string
  user_created_at :: string
  banned :: bool
  ban_reason :: string

record page =
  page_user_id :: int
  slug :: string
  display_name :: string
  bio :: string
  avatar_url :: string
  bg_url :: string
  accent :: string
  song_url :: string
  song_volume :: rat
  links_json :: "link list"
  custom_css :: string
  updated_at :: string

record invite_key =
  key :: string
  created_by :: int
  used_by :: "int option"
  used_at :: "string option"
  key_created_at :: string

record session =
  token :: string
  sess_user_id :: int
  sess_created_at :: string

record impersonation =
  imp_token :: string
  admin_user_id :: int
  imp_created_at :: string

record db =
  users :: "user list"
  pages :: "page list"
  invite_keys :: "invite_key list"
  sessions :: "session list"
  impersonations :: "impersonation list"

text \<open>The store right after \<open>migrate\<close> on a fresh database.\<close>

definition empty_db :: db where
  "empty_db = \<lparr>users = [], pages = [], invite_keys = [], sessions = [], impersonations = []\<rparr>"

text \<open>
  A statement fails only by violating a constraint of the schema; a failing statement changes
  nothing. The message of a violated PRIMARY KEY or UNIQUE constraint contains the word UNIQUE,
  the message of a violated FOREIGN KEY does not. A \<open>TypeError\<close> is what reading a property
  of \<open>null\<close> throws. Failures of the connection are outside the model.
\<close>

datatype failure = UniqueViolation | ForeignKeyViolation | TypeError

text \<open>\<open>SELECT ... WHERE col = ? LIMIT 1\<close> through \<open>get\<close>: the first matching row, or null.\<close>

definition get_user_by_id :: "db \<Rightarrow> int \<Rightarrow> user option" where
  "get_user_by_id d i = find (\<lambda>u. user_id u = i) (users d)"

definition get_user_by_name :: "db \<Rightarrow> string \<Rightarrow> user option" where
  "get_user_by_name d n = find (\<lambda>u. username u = n) (users d)"

definition get_page_by_user :: "db \<Rightarrow> int \<Rightarrow> page option" where
  "get_page_by_user d i = find (\<lambda>p. page_user_id p = i) (pages d)"

definition get_page_by_slug :: "db \<Rightarrow> string \<Rightarrow> page option" where
  "get_page_by_slug d s = find (\<lambda>p. slug p = s) (pages d)"

definition get_invite :: "db \<Rightarrow> string \<Rightarrow> invite_key option" where
  "get_invite d k = find (\<lambda>r. key r = k) (invite_keys d)"

definition get_session :: "db \<Rightarrow> string \<Rightarrow> session option" where
  "get_session d t = find (\<lambda>s. token s = t) (sessions d)"

definition get_impersonation :: "db \<Rightarrow> string \<Rightarrow> impersonation option" where
  "get_impersonation d t = find (\<lambda>r. imp_token r = t) (impersonations d)"

text \<open>
  \<open>INSERT INTO users\<close>: the id is AUTOINCREMENT (one more than the largest id so far; no row
  of \<open>users\<close> is ever deleted), \<open>username\<close> is UNIQUE, \<open>banned\<close> and \<open>ban_reason\<close> take their
  defaults. The result carries \<open>lastInsertRowid\<close>.
\<close>

definition next_user_id :: "db \<Rightarrow> int" where
  "next_user_id d = foldr max (map user_id (users d)) 0 + 1"

definition insert_user :: "db \<Rightarrow> string \<Rightarrow> string \<Rightarrow> string \<Rightarrow> failure + (db \<times> int)" where
  "insert_user d name hash ts =
     (if name \<in> set (map username (users d)) then Inl UniqueViolation
      else (let i = next_user_id d
            in Inr (d\<lparr>users := users d @
                      [\<lparr>user_id = i, username = name, password_hash = hash,
                        user_created_at = ts, banned = False, ban_reason = []\<rparr>]\<rparr>, i)))"

text \<open>
  \<open>INSERT INTO pages\<close>: \<open>user_id\<close> is the primary key, \<open>slug\<close> is UNIQUE, and
  \<open>user_id\<close> references \<open>users(id)\<close>. Uniqueness is tested as the row is written, the
  foreign key when the statement ends.
\<close>

definition insert_page :: "db \<Rightarrow> page \<Rightarrow> failure + db" where
  "insert_page d p =
     (if page_user_id p \<in> set (map page_user_id (pages d)) \<or> slug p \<in> set (map slug (pages d))
      then Inl UniqueViolation
      else if page_user_id p \<notin> set (map user_id (users d)) then Inl ForeignKeyViolation
      else Inr (d\<lparr>pages := pages d @ [p]\<rparr>))"

text \<open>\<open>INSERT INTO sessions\<close>, \<open>impersonations\<close>, \<open>invite_keys\<close>: the first column is the primary key.\<close>

definition insert_session :: "db \<Rightarrow> session \<Rightarrow> failure + db" where
  "insert_session d s =
     (if token s \<in> set (map token (sessions d)) then Inl UniqueViolation
      else Inr (d\<lparr>sessions := sessions d @ [s]\<rparr>))"

definition insert_impersonation :: "db \<Rightarrow> impersonation \<Rightarrow> failure + db" where
  "insert_impersonation d r =
     (if imp_token r \<in> set (map imp_token (impersonations d)) then Inl UniqueViolation
      else Inr (d\<lparr>impersonations := impersonations d @ [r]\<rparr>))"

definition insert_invite :: "db \<Rightarrow> invite_key \<Rightarrow> failure + db" where
  "insert_invite d r =
     (if key r \<in> set (map key (invite_keys d)) then Inl UniqueViolation
      else Inr (d\<lparr>invite_keys := invite_keys d @ [r]\<rparr>))"

text \<open>\<open>UPDATE invite_keys SET used_by = ?, used_at = ? WHERE key = ?\<close>\<close>

definition update_invite_used :: "db \<Rightarrow> int \<Rightarrow> string \<Rightarrow> string \<Rightarrow> db" where
  "update_invite_used d uid ts k =
     d\<lparr>invite_keys :=
         map (\<lambda>r. if key r = k then r\<lparr>used_by := Some uid, used_at := Some ts\<rparr> else r)
           (invite_keys d)\<rparr>"

text \<open>\<open>UPDATE users SET banned = ?, ban_reason = ? WHERE id = ?\<close>\<close>

definition update_user_ban :: "db \<Rightarrow> bool \<Rightarrow> string \<Rightarrow> int \<Rightarrow> db" where
  "update_user_ban d b reason i =
     d\<lparr>users :=
         map (\<lambda>u. if user_id u = i then u\<lparr>banned := b, ban_reason := reason\<rparr> else u) (users d)\<rparr>"

text \<open>\<open>DELETE FROM sessions WHERE token = ?\<close> and \<open>DELETE FROM impersonations WHERE token = ?\<close>\<close>

definition delete_session :: "db \<Rightarrow> string \<Rightarrow> db" where
  "delete_session d t = d\<lparr>sessions := filter (\<lambda>s. token s \<noteq> t) (sessions d)\<rparr>"

definition delete_impersonation :: "db \<Rightarrow> string \<Rightarrow> db" where
  "delete_impersonation d t =
     d\<lparr>impersonations := filter (\<lambda>r. imp_token r \<noteq> t) (impersonations d)\<rparr>"

text \<open>
  \<open>UPDATE pages SET slug = ?, ... WHERE user_id = ?\<close>: fails when the new slug is the slug of
  a row of another user.
\<close>

definition update_page :: "db \<Rightarrow> int \<Rightarrow> (page \<Rightarrow> page) \<Rightarrow> string \<Rightarrow> failure + db" where
  "update_page d uid f new_slug =
     (if list_ex (\<lambda>p. page_user_id p = uid) (pages d) \<and>
         list_ex (\<lambda>q. page_user_id q \<noteq> uid \<and> slug q = new_slug) (pages d)
      then Inl UniqueViolation
      else Inr (d\<lparr>pages := map (\<lambda>p. if page_user_id p = uid then f p else p) (pages d)\<rparr>))"

section \<open>Requests, replies and the opaque primitives\<close>

text \<open>
  What a handler reads beyond the store: the value each call of a random or clock primitive
  returns. \<open>now\<close> is called at most once per call site in a request, so a field per call
  site holds its value. \<open>nanoid(6)\<close> is called once per round of the slug loop: \<open>nanoid6 k\<close>
  is the value of its call number \<open>k\<close>. \<open>bcrypt.hash\<close> and \<open>bcrypt.compare\<close> are opaque.
\<close>

record env =
  now_user :: string
  now_invite :: string
  now_page :: string
  now_session :: string
  now_imp :: string
  now_key :: string
  nanoid32 :: string
  nanoid10 :: string
  nanoid6 :: "nat \<Rightarrow> string"
  bcrypt_hash :: "string \<Rightarrow> string"
  bcrypt_compare :: "string \<Rightarrow> string \<Rightarrow> bool"

datatype route =
    GetRoot | GetSignup | PostSignup | GetLogin | PostLogin | PostLogout
  | GetDashboard | PostDashboard | GetAdmin | GetAdminKeys | PostAdminKeys | GetAdminUsers
  | PostBan | PostUnban | PostImpersonate | PostReturn | GetSlug

text \<open>
  \<open>cookie\<close> is \<open>req.signedCookies.session\<close> (\<open>None\<close> when the cookie is missing or its
  signature is wrong). \<open>param_id\<close> is \<open>Number(req.params.id)\<close>: \<open>None\<close> for NaN, otherwise
  the integer denoted (a value with a fractional part selects no row, like an integer that is
  no row's id). \<open>param_slug\<close> is \<open>req.params.slug\<close>. \<open>volume\<close> is
  \<open>Number(req.body.song_volume)\<close>.
\<close>

record request =
  route :: route
  cookie :: "string option"
  param_id :: "int option"
  param_slug :: string
  form :: body
  volume :: "rat option"

datatype response =
    Redirect string
  | Render string "string option"
  | RenderDashboard user page "link list" "string option" "string option" bool bool
  | RenderProfile page "link list"
  | Status nat string
  | Unhandled failure
  | NoReturn
  | StaticFile
  | NotRouted
  | BadParam

text \<open>
  \<open>Render view error\<close> is \<open>res.render(view, {error})\<close> (the rows given to the two admin
  listings are not modelled). \<open>Unhandled\<close> is an exception leaving an async handler: no
  response is sent. \<open>NoReturn\<close> is a handler that never completes. The last three are
  answers of the framework itself: a file served by the static middleware, the 404 for a
  path that no route matches, and the 400 for a path parameter that cannot be decoded.
\<close>

datatype cookie_effect = KeepCookie | SetCookie string | ClearCookie

record reply =
  resp :: response
  set_cookie :: cookie_effect
  store :: db

definition answer :: "response \<Rightarrow> db \<Rightarrow> reply" where
  "answer r d = \<lparr>resp = r, set_cookie = KeepCookie, store = d\<rparr>"

section \<open>server.js: middleware\<close>

text \<open>
  \<open>getUserFromCookie\<close> selects the columns \<open>id\<close>, \<open>username\<close>, \<open>banned\<close> and
  \<open>ban_reason\<close> of the user; the model hands on the whole row.
\<close>

definition getUserFromCookie :: "db \<Rightarrow> string option \<Rightarrow> user option" where
  "getUserFromCookie d c =
     (case c of None \<Rightarrow> None
      | Some t \<Rightarrow>
          if t = [] then None
          else (case get_session d t of None \<Rightarrow> None
                | Some sess \<Rightarrow> get_user_by_id d (sess_user_id sess)))"

definition isImpersonating :: "db \<Rightarrow> string option \<Rightarrow> bool" where
  "isImpersonating d c =
     (case c of None \<Rightarrow> False
      | Some t \<Rightarrow> if t = [] then False else get_impersonation d t \<noteq> None)"

text \<open>A middleware either answers the request itself (\<open>Some\<close>) or calls \<open>next\<close> (\<open>None\<close>).\<close>

definition requireAuth :: "user option \<Rightarrow> response option" where
  "requireAuth u =
     (case u of None \<Rightarrow> Some (Redirect ''/login'')
      | Some usr \<Rightarrow> if banned usr then Some (Status 403 ''Banned'') else None)"

definition requireAdmin :: "user option \<Rightarrow> response option" where
  "requireAdmin u =
     (case u of None \<Rightarrow> Some (Status 403 ''Forbidden'')
      | Some usr \<Rightarrow> if user_id usr \<noteq> 1 then Some (Status 403 ''Forbidden'') else None)"

section \<open>server.js: slugs and pages\<close>

definition slug_taken :: "page list \<Rightarrow> string \<Rightarrow> bool" where
  "slug_taken ps s = list_ex (\<lambda>p. slug p = s) ps"

text \<open>
  The \<open>while\<close> loop of \<open>uniqueSlugEnsure\<close>. No write happens during the loop, so the pages
  table is fixed. \<open>i\<close> is the counter, \<open>k\<close> the number of calls of \<open>nanoid(6)\<close> made so far.
  The loop may run forever: then the value is \<open>None\<close>.
\<close>

partial_function (option) slugLoop ::
  "page list \<Rightarrow> (nat \<Rightarrow> string) \<Rightarrow> string \<Rightarrow> string \<Rightarrow> nat \<Rightarrow> nat \<Rightarrow> string option" where
  "slugLoop ps rnd base slg i k =
     (if slug_taken ps slg then
        (if i + 1 > 9999
         then slugLoop ps rnd base (base @ ''-'' @ toLowerCase (rnd k)) (i + 1) (k + 1)
         else slugLoop ps rnd base (base @ dec i) (i + 1) k)
      else Some slg)"

declare slugLoop.simps [code]

definition uniqueSlugEnsure :: "page list \<Rightarrow> (nat \<Rightarrow> string) \<Rightarrow> string \<Rightarrow> string option" where
  "uniqueSlugEnsure ps rnd base = (let base = uniqueSlug base in slugLoop ps rnd base base 2 0)"

text \<open>How a call of an async function ends.\<close>

datatype flow = Returned | Throws failure | Diverges

definition ensurePageForUser :: "db \<Rightarrow> env \<Rightarrow> int \<Rightarrow> string \<Rightarrow> flow \<times> db" where
  "ensurePageForUser d e userId uname =
     (case get_page_by_user d userId of
        Some existing \<Rightarrow> (Returned, d)
      | None \<Rightarrow>
          (case uniqueSlugEnsure (pages d) (nanoid6 e) uname of
             None \<Rightarrow> (Diverges, d)
           | Some slg \<Rightarrow>
               (case insert_page d
                       \<lparr>page_user_id = userId, slug = slg, display_name = uname,
                        bio = ''welcome to my page'', avatar_url = ''/public/default-avatar.png'',
                        bg_url = [], accent = ''#8b5cf6'', song_url = [], song_volume = 2 / 5,
                        links_json = [], custom_css = [], updated_at = now_page e\<rparr> of
                  Inl err \<Rightarrow> (Throws err, d)
                | Inr d' \<Rightarrow> (Returned, d'))))"

section \<open>server.js: the handlers\<close>

text \<open>
  \<open>with_auth\<close> and \<open>with_admin\<close> run the handler \<open>k\<close> behind \<open>requireAuth\<close>, and behind
  \<open>requireAuth\<close> then \<open>requireAdmin\<close>, with \<open>req.user\<close> as the global middleware set it.
  (When \<open>requireAuth\<close> calls \<open>next\<close> there is a user; the branch for none repeats its answer.)
\<close>

definition with_auth :: "db \<Rightarrow> request \<Rightarrow> (user \<Rightarrow> reply) \<Rightarrow> reply" where
  "with_auth d req k =
     (let u = getUserFromCookie d (cookie req)
      in case requireAuth u of
           Some r \<Rightarrow> answer r d
         | None \<Rightarrow> (case u of None \<Rightarrow> answer (Redirect ''/login'') d | Some usr \<Rightarrow> k usr))"

definition with_admin :: "db \<Rightarrow> request \<Rightarrow> (user \<Rightarrow> reply) \<Rightarrow> reply" where
  "with_admin d req k =
     with_auth d req
       (\<lambda>usr. case requireAdmin (Some usr) of Some r \<Rightarrow> answer r d | None \<Rightarrow> k usr)"

definition get_root :: "db \<Rightarrow> request \<Rightarrow> reply" where
  "get_root d req =
     (case getUserFromCookie d (cookie req) of
        None \<Rightarrow> answer (Redirect ''/login'') d
      | Some usr \<Rightarrow>
          if banned usr then answer (Status 403 ''Banned'') d
          else (case get_page_by_user d (user_id usr) of
                  Some p \<Rightarrow> answer (Redirect (''/'' @ slug p)) d
                | None \<Rightarrow> answer (Redirect ''/dashboard'') d))"

text \<open>The \<open>catch\<close> clause of the signup handler.\<close>

definition signup_catch :: "failure \<Rightarrow> db \<Rightarrow> reply" where
  "signup_catch err d =
     (if err = UniqueViolation then answer (Render ''signup'' (Some ''Username already taken'')) d
      else answer (Render ''signup'' (Some ''Signup failed'')) d)"

text \<open>\<open>inviteRow.used_by\<close> as a condition: NULL and 0 are falsy.\<close>

definition used_by_truthy :: "invite_key \<Rightarrow> bool" where
  "used_by_truthy r = (case used_by r of None \<Rightarrow> False | Some i \<Rightarrow> i \<noteq> 0)"

definition post_signup :: "db \<Rightarrow> env \<Rightarrow> request \<Rightarrow> reply" where
  "post_signup d e req =
     (let password = or_str (form req ''password'') [];
          invite = trim (or_str (form req ''invite'') [])
      in case validateUsername (or_str (form req ''username'') []) of
           None \<Rightarrow> answer (Render ''signup'' (Some ''Username: 3-20 chars, a-z 0-9 _'')) d
         | Some uname \<Rightarrow>
             if length password < 6
             then answer (Render ''signup'' (Some ''Password must be 6+ chars'')) d
             else (case get_invite d invite of
                     None \<Rightarrow> answer (Render ''signup'' (Some ''Invalid invite key'')) d
                   | Some inviteRow \<Rightarrow>
                       if used_by_truthy inviteRow
                       then answer (Render ''signup'' (Some ''Invalid invite key'')) d
                       else (case insert_user d uname (bcrypt_hash e password) (now_user e) of
                               Inl err \<Rightarrow> signup_catch err d
                             | Inr (d1, userId) \<Rightarrow>
                                 (let d2 = update_invite_used d1 userId (now_invite e) invite
                                  in case ensurePageForUser d2 e userId uname of
                                       (Diverges, d3) \<Rightarrow> answer NoReturn d3
                                     | (Throws err, d3) \<Rightarrow> signup_catch err d3
                                     | (Returned, d3) \<Rightarrow>
                                         (case insert_session d3
                                                 \<lparr>token = nanoid32 e, sess_user_id = userId,
                                                  sess_created_at = now_session e\<rparr> of
                                            Inl err \<Rightarrow> signup_catch err d3
                                          | Inr d4 \<Rightarrow>
                                              \<lparr>resp = Redirect ''/dashboard'',
                                               set_cookie = SetCookie (nanoid32 e),
                                               store = d4\<rparr>)))))"

definition post_login :: "db \<Rightarrow> env \<Rightarrow> request \<Rightarrow> reply" where
  "post_login d e req =
     (let uname = trim (toLowerCase (or_str (form req ''username'') []));
          password = or_str (form req ''password'') []
      in case get_user_by_name d uname of
           None \<Rightarrow> answer (Render ''login'' (Some ''Invalid login'')) d
         | Some usr \<Rightarrow>
             if banned usr then answer (Render ''login'' (Some ''Banned'')) d
             else if \<not> bcrypt_compare e password (password_hash usr)
             then answer (Render ''login'' (Some ''Invalid login'')) d
             else (case ensurePageForUser d e (user_id usr) (username usr) of
                     (Diverges, d1) \<Rightarrow> answer NoReturn d1
                   | (Throws err, d1) \<Rightarrow> answer (Unhandled err) d1
                   | (Returned, d1) \<Rightarrow>
                       (case insert_session d1
                               \<lparr>token = nanoid32 e, sess_user_id = user_id usr,
                                sess_created_at = now_session e\<rparr> of
                          Inl err \<Rightarrow> answer (Unhandled err) d1
                        | Inr d2 \<Rightarrow>
                            \<lparr>resp = Redirect ''/dashboard'', set_cookie = SetCookie (nanoid32 e),
                             store = d2\<rparr>)))"

definition post_logout :: "db \<Rightarrow> request \<Rightarrow> reply" where
  "post_logout d req =
     (let d' = (case cookie req of
                  None \<Rightarrow> d
                | Some t \<Rightarrow> if t = [] then d else delete_impersonation (delete_session d t) t)
      in \<lparr>resp = Redirect ''/login'', set_cookie = ClearCookie, store = d'\<rparr>)"

text \<open>
  The two dashboard handlers end alike: they read the page again and render it; with no
  page row, \<open>page.links_json\<close> throws.
\<close>

definition render_dashboard ::
  "db \<Rightarrow> request \<Rightarrow> user \<Rightarrow> string option \<Rightarrow> string option \<Rightarrow> reply" where
  "render_dashboard d req usr err ok =
     (case get_page_by_user d (user_id usr) of
        None \<Rightarrow> answer (Unhandled TypeError) d
      | Some p \<Rightarrow>
          answer (RenderDashboard usr p (links_json p) err ok (user_id usr = 1)
                    (isImpersonating d (cookie req))) d)"

definition get_dashboard :: "db \<Rightarrow> env \<Rightarrow> request \<Rightarrow> reply" where
  "get_dashboard d e req =
     with_auth d req
       (\<lambda>usr. case ensurePageForUser d e (user_id usr) (username usr) of
                 (Diverges, d1) \<Rightarrow> answer NoReturn d1
               | (Throws err, d1) \<Rightarrow> answer (Unhandled err) d1
               | (Returned, d1) \<Rightarrow> render_dashboard d1 req usr None None)"

text \<open>
  \<open>savePageForUser\<close> returns \<open>{ok: true}\<close> (\<open>Inr None\<close>) or \<open>{ok: false, error}\<close>
  (\<open>Inr (Some error)\<close>), or throws what the UPDATE throws.
\<close>

definition savePageForUser :: "db \<Rightarrow> env \<Rightarrow> int \<Rightarrow> request \<Rightarrow> (failure + string option) \<times> db" where
  "savePageForUser d e userId req =
     (let b = form req
      in case get_page_by_user d userId of
           None \<Rightarrow> (Inr (Some ''No page''), d)
         | Some pg \<Rightarrow>
             (case validateSlug (or_str (b ''slug'') (slug pg)) of
                None \<Rightarrow> (Inr (Some ''Slug must be 2-32: a-z 0-9 _ -''), d)
              | Some slg \<Rightarrow>
                  (let owner = get_page_by_slug d slg
                   in if (case owner of None \<Rightarrow> False | Some own \<Rightarrow> page_user_id own \<noteq> userId)
                      then (Inr (Some ''That slug is taken''), d)
                      else
                        (let links = collectLinks b 0 [];
                             displayName = slice0 40 (trim (or_str (b ''display_name'') []));
                             bio' = slice0 240 (trim (or_str (b ''bio'') []));
                             avatarUrl = or_str (Some (slice0 400 (trim (or_str (b ''avatar_url'') []))))
                                           ''/public/default-avatar.png'';
                             bgUrl = slice0 400 (trim (or_str (b ''bg_url'') []));
                             accent' = slice0 16 (trim (or_str (b ''accent'') ''#8b5cf6''));
                             songUrl = slice0 400 (trim (or_str (b ''song_url'') []));
                             songVolume = clamp (volume req) 0 1;
                             customCss = sanitizeCss (or_str (b ''custom_css'') [])
                         in case update_page d userId
                                   (\<lambda>p. p\<lparr>slug := slg, display_name := displayName, bio := bio',
                                           avatar_url := avatarUrl, bg_url := bgUrl,
                                           accent := accent', song_url := songUrl,
                                           song_volume := songVolume, links_json := links,
                                           custom_css := customCss, updated_at := now_page e\<rparr>)
                                   slg of
                              Inl err \<Rightarrow> (Inl err, d)
                            | Inr d' \<Rightarrow> (Inr None, d')))))"

definition post_dashboard :: "db \<Rightarrow> env \<Rightarrow> request \<Rightarrow> reply" where
  "post_dashboard d e req =
     with_auth d req
       (\<lambda>usr. case savePageForUser d e (user_id usr) req of
                 (Inl err, d1) \<Rightarrow> answer (Unhandled err) d1
               | (Inr result, d1) \<Rightarrow>
                   render_dashboard d1 req usr result
                     (case result of None \<Rightarrow> Some ''Saved'' | Some err \<Rightarrow> None))"

text \<open>
  \<open>toUpperCase\<close> is applied to the output of \<open>nanoid\<close> only, whose alphabet is
  \<open>A-Za-z0-9_-\<close>; there it maps a-z to A-Z.
\<close>

definition toUpperCase_ascii :: "string \<Rightarrow> string" where
  "toUpperCase_ascii s =
     map (\<lambda>c. if is_lower_az c then char_of (code_unit c - 32) else c) s"

definition post_admin_keys :: "db \<Rightarrow> env \<Rightarrow> request \<Rightarrow> reply" where
  "post_admin_keys d e req =
     with_admin d req
       (\<lambda>usr. case insert_invite d
                      \<lparr>key = toUpperCase_ascii (nanoid10 e), created_by = user_id usr,
                       used_by = None, used_at = None, key_created_at = now_key e\<rparr> of
                 Inl err \<Rightarrow> answer (Unhandled err) d
               | Inr d' \<Rightarrow> answer (Redirect ''/admin/keys'') d')"

text \<open>\<open>!id || id === 1\<close> and \<open>!id\<close> on \<open>Number(req.params.id)\<close>: NaN and 0 are falsy.\<close>

definition id_falsy :: "int option \<Rightarrow> bool" where
  "id_falsy i = (case i of None \<Rightarrow> True | Some n \<Rightarrow> n = 0)"

definition post_ban :: "db \<Rightarrow> request \<Rightarrow> reply" where
  "post_ban d req =
     with_admin d req
       (\<lambda>usr. case param_id req of
                 None \<Rightarrow> answer (Status 400 ''no'') d
               | Some i \<Rightarrow>
                   if id_falsy (Some i) \<or> i = 1 then answer (Status 400 ''no'') d
                   else answer (Redirect ''/admin/users'')
                          (update_user_ban d True (slice0 120 (or_str (form req ''reason'') [])) i))"

definition post_unban :: "db \<Rightarrow> request \<Rightarrow> reply" where
  "post_unban d req =
     with_admin d req
       (\<lambda>usr. case param_id req of
                 None \<Rightarrow> answer (Status 400 ''no'') d
               | Some i \<Rightarrow>
                   if id_falsy (Some i) \<or> i = 1 then answer (Status 400 ''no'') d
                   else answer (Redirect ''/admin/users'') (update_user_ban d False [] i))"

definition post_impersonate :: "db \<Rightarrow> env \<Rightarrow> request \<Rightarrow> reply" where
  "post_impersonate d e req =
     with_admin d req
       (\<lambda>usr. case param_id req of
                 None \<Rightarrow> answer (Status 400 ''no'') d
               | Some i \<Rightarrow>
                   if id_falsy (Some i) then answer (Status 400 ''no'') d
                   else (case get_user_by_id d i of
                           None \<Rightarrow> answer (Status 404 ''not found'') d
                         | Some target \<Rightarrow>
                             (case insert_session d
                                     \<lparr>token = nanoid32 e, sess_user_id = i,
                                      sess_created_at = now_session e\<rparr> of
                                Inl err \<Rightarrow> answer (Unhandled err) d
                              | Inr d1 \<Rightarrow>
                                  (case insert_impersonation d1
                                          \<lparr>imp_token = nanoid32 e, admin_user_id = user_id usr,
                                           imp_created_at = now_imp e\<rparr> of
                                     Inl err \<Rightarrow> answer (Unhandled err) d1
                                   | Inr d2 \<Rightarrow>
                                       \<lparr>resp = Redirect ''/dashboard'',
                                        set_cookie = SetCookie (nanoid32 e), store = d2\<rparr>))))"

definition post_return :: "db \<Rightarrow> env \<Rightarrow> request \<Rightarrow> reply" where
  "post_return d e req =
     with_auth d req
       (\<lambda>usr. case cookie req of
                 None \<Rightarrow> answer (Redirect ''/dashboard'') d
               | Some t \<Rightarrow>
                   if t = [] then answer (Redirect ''/dashboard'') d
                   else (case get_impersonation d t of
                           None \<Rightarrow> answer (Redirect ''/dashboard'') d
                         | Some row \<Rightarrow>
                             (let d1 = delete_session d t;
                                  d2 = delete_impersonation d1 t
                              in case insert_session d2
                                        \<lparr>token = nanoid32 e, sess_user_id = admin_user_id row,
                                         sess_created_at = now_session e\<rparr> of
                                   Inl err \<Rightarrow> answer (Unhandled err) d2
                                 | Inr d3 \<Rightarrow>
                                     \<lparr>resp = Redirect ''/admin/users'',
                                      set_cookie = SetCookie (nanoid32 e), store = d3\<rparr>)))"

definition get_slug :: "db \<Rightarrow> request \<Rightarrow> reply" where
  "get_slug d req =
     (let slg = normalizeSlug (param_slug req)
      in case get_page_by_slug d slg of
           None \<Rightarrow> answer (Status 404 ''Not found'') d
         | Some p \<Rightarrow> answer (RenderProfile p (links_json p)) d)"

text \<open>The routing table: one request, handled on the store \<open>d\<close> with the primitives \<open>e\<close>.\<close>

definition handle :: "db \<Rightarrow> env \<Rightarrow> request \<Rightarrow> reply" where
  "handle d e req =
     (case route req of
        GetRoot \<Rightarrow> get_root d req
      | GetSignup \<Rightarrow> answer (Render ''signup'' None) d
      | PostSignup \<Rightarrow> post_signup d e req
      | GetLogin \<Rightarrow> answer (Render ''login'' None) d
      | PostLogin \<Rightarrow> post_login d e req
      | PostLogout \<Rightarrow> post_logout d req
      | GetDashboard \<Rightarrow> get_dashboard d e req
      | PostDashboard \<Rightarrow> post_dashboard d e req
      | GetAdmin \<Rightarrow> with_admin d req (\<lambda>usr. answer (Redirect ''/admin/keys'') d)
      | GetAdminKeys \<Rightarrow> with_admin d req (\<lambda>usr. answer (Render ''admin_keys'' None) d)
      | PostAdminKeys \<Rightarrow> post_admin_keys d e req
      | GetAdminUsers \<Rightarrow> with_admin d req (\<lambda>usr. answer (Render ''admin_users'' None) d)
      | PostBan \<Rightarrow> post_ban d req
      | PostUnban \<Rightarrow> post_unban d req
      | PostImpersonate \<Rightarrow> post_impersonate d e req
      | PostReturn \<Rightarrow> post_return d e req
      | GetSlug \<Rightarrow> get_slug d req)"

section \<open>server.js: the order of the GET routes\<close>

text \<open>
  A GET request is matched against the middleware and the routes in the order of their
  registration: the static middleware mounted at \<open>/public\<close> (line 27), then \<open>/\<close>,
  \<open>/signup\<close>, \<open>/login\<close>, \<open>/dashboard\<close>, \<open>/admin\<close>, \<open>/admin/keys\<close>,
  \<open>/admin/users\<close>, and last \<open>/:slug\<close> (line 366). With the settings of the application
  (the defaults of the framework) a route path is matched without regard to letter case and
  with an optional trailing slash, and \<open>:slug\<close> stands for one non-empty segment without a
  slash, handed to the handler after \<open>decodeURIComponent\<close>.

  Two things are not in the source and are taken as parameters: \<open>decodeURIComponent\<close>
  (\<open>None\<close> when it throws) and whether the static middleware finds a file for the path.
\<close>

record express =
  decodeURIComponent :: "string \<Rightarrow> string option"
  static_serves :: "string \<Rightarrow> bool"

definition path_matches :: "string \<Rightarrow> string \<Rightarrow> bool" where
  "path_matches pat path = (let p = map fold_ascii path in p = pat \<or> p = pat @ ''/'')"

definition under_public :: "string \<Rightarrow> bool" where
  "under_public path =
     (let p = map fold_ascii path in p = ''/public'' \<or> take 8 p = ''/public/'')"

definition slug_segment :: "string \<Rightarrow> string option" where
  "slug_segment path =
     (case path of
        [] \<Rightarrow> None
      | c # rest \<Rightarrow>
          if c \<noteq> CHR ''/'' then None
          else (let seg = (if rest \<noteq> [] \<and> last rest = CHR ''/'' then butlast rest else rest)
                in if seg \<noteq> [] \<and> CHR ''/'' \<notin> set seg then Some seg else None))"

text \<open>The request that a GET handler sees.\<close>

definition get_request :: "route \<Rightarrow> string option \<Rightarrow> string \<Rightarrow> request" where
  "get_request r c s =
     \<lparr>route = r, cookie = c, param_id = None, param_slug = s, form = Map.empty, volume = None\<rparr>"

definition dispatch_get :: "express \<Rightarrow> db \<Rightarrow> env \<Rightarrow> string option \<Rightarrow> string \<Rightarrow> reply" where
  "dispatch_get x d e c path =
     (if under_public path \<and> static_serves x path then answer StaticFile d
      else if path = ''/'' then handle d e (get_request GetRoot c [])
      else if path_matches ''/signup'' path then handle d e (get_request GetSignup c [])
      else if path_matches ''/login'' path then handle d e (get_request GetLogin c [])
      else if path_matches ''/dashboard'' path then handle d e (get_request GetDashboard c [])
      else if path_matches ''/admin'' path then handle d e (get_request GetAdmin c [])
      else if path_matches ''/admin/keys'' path then handle d e (get_request GetAdminKeys c [])
      else if path_matches ''/admin/users'' path then handle d e (get_request GetAdminUsers c [])
      else (case slug_segment path of
              None \<Rightarrow> answer NotRouted d
            | Some seg \<Rightarrow>
                (case decodeURIComponent x seg of
                   None \<Rightarrow> answer BadParam d
                 | Some s \<Rightarrow> handle d e (get_request GetSlug c s))))"

text \<open>A run of the server: requests handled one after the other.\<close>

fun run_requests :: "db \<Rightarrow> (env \<times> request) list \<Rightarrow> db" where
  "run_requests d [] = d"
| "run_requests d ((e, req) # rs) = run_requests (store (handle d e req)) rs"

section \<open>Definitions used to state the properties\<close>

subsection \<open>The candidates of the slug search\<close>

text \<open>
  \<open>candidate rnd base n\<close> is the slug tested by check number \<open>n\<close> (from 0) of the loop:
  the base, then the base with the suffixes 2 .. 9998, then the base with a random tail.
\<close>

definition candidate :: "(nat \<Rightarrow> string) \<Rightarrow> string \<Rightarrow> nat \<Rightarrow> string" where
  "candidate rnd base n =
     (if n = 0 then base
      else if n \<le> 9997 then base @ dec (n + 1)
      else base @ ''-'' @ toLowerCase (rnd (n - 9998)))"

text \<open>The loop, entered at check number \<open>n\<close>.\<close>

definition loop_at :: "page list \<Rightarrow> (nat \<Rightarrow> string) \<Rightarrow> string \<Rightarrow> nat \<Rightarrow> string option" where
  "loop_at ps rnd base n = slugLoop ps rnd base (candidate rnd base n) (n + 2) (n - 9997)"

text \<open>\<open>y\<close> is the first free candidate at or after the check the loop state stands for.\<close>

definition first_free_from ::
  "page list \<Rightarrow> (nat \<Rightarrow> string) \<Rightarrow> string \<Rightarrow> string \<Rightarrow> nat \<Rightarrow> nat \<Rightarrow> string \<Rightarrow> bool" where
  "first_free_from ps rnd base slg i k y =
     (\<forall>n. slg = candidate rnd base n \<and> i = n + 2 \<and> k = n - 9997 \<longrightarrow>
        (\<exists>m\<ge>n. y = candidate rnd base m \<and> \<not> slug_taken ps y \<and>
           (\<forall>j. n \<le> j \<and> j < m \<longrightarrow> slug_taken ps (candidate rnd base j))))"

subsection \<open>The link list, as the specification words it\<close>

text \<open>
  Entry \<open>i\<close> is kept when its URL field, trimmed, is non-empty and starts with \<open>http://\<close> or
  \<open>https://\<close> in any letter case; it is saved with its label (or \<open>Link\<close>), both cut to
  their maximal lengths.
\<close>

definition link_kept :: "body \<Rightarrow> nat \<Rightarrow> bool" where
  "link_kept b i =
     (let u = trim (or_str (b (''url_'' @ dec i)) []) in u \<noteq> [] \<and> http_scheme u)"

definition link_saved :: "body \<Rightarrow> nat \<Rightarrow> link" where
  "link_saved b i =
     (let l = slice0 32 (trim (or_str (b (''label_'' @ dec i)) []));
          u = slice0 400 (trim (or_str (b (''url_'' @ dec i)) []))
      in \<lparr>link_label = (if l = [] then ''Link'' else l), link_url = u\<rparr>)"

definition spec_links :: "body \<Rightarrow> link list" where
  "spec_links b = map (link_saved b) (filter (link_kept b) [0..<14])"

definition example_body :: body where
  "example_body =
     [''label_0'' \<mapsto> [], ''url_0'' \<mapsto> ''ftp://x'',
      ''label_1'' \<mapsto> ''Blog'', ''url_1'' \<mapsto> ''https://b.example'',
      ''label_2'' \<mapsto> [], ''url_2'' \<mapsto> ''https://c.example'']"

text \<open>The row that the UPDATE of \<open>savePageForUser\<close> writes over \<open>p\<close>.\<close>

definition edited :: "env \<Rightarrow> request \<Rightarrow> string \<Rightarrow> page \<Rightarrow> page" where
  "edited e req slg p =
     p\<lparr>slug := slg,
       display_name := slice0 40 (trim (or_str (form req ''display_name'') [])),
       bio := slice0 240 (trim (or_str (form req ''bio'') [])),
       avatar_url := or_str (Some (slice0 400 (trim (or_str (form req ''avatar_url'') []))))
                       ''/public/default-avatar.png'',
       bg_url := slice0 400 (trim (or_str (form req ''bg_url'') [])),
       accent := slice0 16 (trim (or_str (form req ''accent'') ''#8b5cf6'')),
       song_url := slice0 400 (trim (or_str (form req ''song_url'') [])),
       song_volume := clamp (volume req) 0 1,
       links_json := collectLinks (form req) 0 [],
       custom_css := sanitizeCss (or_str (form req ''custom_css'') []),
       updated_at := now_page e\<rparr>"

subsection \<open>A small store and its requests, for concrete instances\<close>

definition demo_env :: env where
  "demo_env =
     \<lparr>now_user = ''2024-01-01T00:00:00.000Z'', now_invite = ''2024-01-01T00:00:00.001Z'',
      now_page = ''2024-01-01T00:00:00.002Z'', now_session = ''2024-01-01T00:00:00.003Z'',
      now_imp = ''2024-01-01T00:00:00.004Z'', now_key = ''2024-01-01T00:00:00.005Z'',
      nanoid32 = ''V1StGXR8_Z5jdHi6B-myTV1StGXR8_Z5'', nanoid10 = ''abCdefGhij'',
      nanoid6 = (\<lambda>k. ''aBcdef''),
      bcrypt_hash = (\<lambda>p. ''hash:'' @ p),
      bcrypt_compare = (\<lambda>p h. h = ''hash:'' @ p)\<rparr>"

definition demo_page :: "int \<Rightarrow> string \<Rightarrow> page" where
  "demo_page uid s =
     \<lparr>page_user_id = uid, slug = s, display_name = s, bio = ''welcome to my page'',
      avatar_url = ''/public/default-avatar.png'', bg_url = [], accent = ''#8b5cf6'',
      song_url = [], song_volume = 2 / 5, links_json = [], custom_css = [],
      updated_at = ''2023-12-31T00:00:00.000Z''\<rparr>"

definition demo_user :: "int \<Rightarrow> string \<Rightarrow> string \<Rightarrow> bool \<Rightarrow> user" where
  "demo_user uid n pw b =
     \<lparr>user_id = uid, username = n, password_hash = ''hash:'' @ pw,
      user_created_at = ''2023-12-31T00:00:00.000Z'', banned = b, ban_reason = []\<rparr>"

definition demo_session :: "string \<Rightarrow> int \<Rightarrow> session" where
  "demo_session t uid = \<lparr>token = t, sess_user_id = uid, sess_created_at = ''2023-12-31T00:00:00.000Z''\<rparr>"

text \<open>
  The administrator \<open>iqsm\<close> (id 1), \<open>alice\<close> (id 2) with a page, \<open>bob\<close> (id 3), banned, with a
  page; one unused invite key; one session each.
\<close>

definition demo_db :: db where
  "demo_db =
     \<lparr>users = [demo_user 1 ''iqsm'' ''Indi2017!!::'' False, demo_user 2 ''alice'' ''secret1'' False,
               demo_user 3 ''bob'' ''hunter22'' True],
      pages = [demo_page 2 ''alice'', demo_page 3 ''bob''],
      invite_keys = [\<lparr>key = ''FRESHKEY01'', created_by = 1, used_by = None, used_at = None,
                      key_created_at = ''2023-12-31T00:00:00.000Z''\<rparr>],
      sessions = [demo_session ''admin-session-token'' 1, demo_session ''alice-session-token'' 2,
                  demo_session ''bob-session-token'' 3],
      impersonations = []\<rparr>"

definition demo_request :: "route \<Rightarrow> string option \<Rightarrow> body \<Rightarrow> request" where
  "demo_request r c b =
     \<lparr>route = r, cookie = c, param_id = None, param_slug = [], form = b, volume = None\<rparr>"

definition slug_form :: "string \<Rightarrow> body" where
  "slug_form s = [''slug'' \<mapsto> s]"

subsection \<open>A pages table that exhausts the numbered candidates\<close>

text \<open>
  \<open>full_pages\<close> holds the 9998 slugs \<open>user\<close>, \<open>user2\<close>, ..., \<open>user9998\<close>;
  \<open>stuck_rnd\<close> is a random source that keeps returning the same six characters.
\<close>

definition stuck_rnd :: "nat \<Rightarrow> string" where
  "stuck_rnd k = ''aaaaaa''"

definition full_pages :: "page list" where
  "full_pages = map (\<lambda>n. demo_page (int n + 1) (candidate stuck_rnd ''user'' n)) [0..<9998]"

subsection \<open>The row inserted by \<open>ensurePageForUser\<close>\<close>

definition new_page :: "env \<Rightarrow> int \<Rightarrow> string \<Rightarrow> string \<Rightarrow> page" where
  "new_page e userId uname slg =
     \<lparr>page_user_id = userId, slug = slg, display_name = uname,
      bio = ''welcome to my page'', avatar_url = ''/public/default-avatar.png'',
      bg_url = [], accent = ''#8b5cf6'', song_url = [], song_volume = 2 / 5,
      links_json = [], custom_css = [], updated_at = now_page e\<rparr>"

text \<open>The number of page rows of a user.\<close>

definition page_rows :: "db \<Rightarrow> int \<Rightarrow> nat" where
  "page_rows d uid = length (filter (\<lambda>p. page_user_id p = uid) (pages d))"

subsection \<open>Routes registered behind \<open>requireAuth\<close>\<close>

definition authenticated_route :: "route \<Rightarrow> bool" where
  "authenticated_route r =
     (r \<in> {GetDashboard, PostDashboard, GetAdmin, GetAdminKeys, PostAdminKeys, GetAdminUsers,
            PostBan, PostUnban, PostImpersonate, PostReturn})"

text \<open>The two writes of the ban and unban handlers on a row of \<open>users\<close>.\<close>

definition ban_row :: "string \<Rightarrow> int \<Rightarrow> user \<Rightarrow> user" where
  "ban_row reason x v = (if user_id v = x then v\<lparr>banned := True, ban_reason := reason\<rparr> else v)"

definition unban_row :: "int \<Rightarrow> user \<Rightarrow> user" where
  "unban_row x v = (if user_id v = x then v\<lparr>banned := False, ban_reason := []\<rparr> else v)"

subsection \<open>Requests on the small store\<close>

definition admin_request :: "route \<Rightarrow> int \<Rightarrow> body \<Rightarrow> request" where
  "admin_request r i b = (demo_request r (Some ''admin-session-token'') b)\<lparr>param_id := Some i\<rparr>"

definition alice_request :: "route \<Rightarrow> request" where
  "alice_request r = demo_request r (Some ''alice-session-token'') Map.empty"

definition reason_form :: body where
  "reason_form = [''reason'' \<mapsto> ''spam'']"

definition login_form :: "string \<Rightarrow> string \<Rightarrow> body" where
  "login_form u p = [''username'' \<mapsto> u, ''password'' \<mapsto> p]"

text \<open>The username and the password that the login handler reads from a request.\<close>

definition login_name :: "request \<Rightarrow> string" where
  "login_name req = trim (toLowerCase (or_str (form req ''username'') []))"

definition login_password :: "request \<Rightarrow> string" where
  "login_password req = or_str (form req ''password'') []"

text \<open>The session row that a handler inserts for a user.\<close>

definition new_session :: "env \<Rightarrow> int \<Rightarrow> session" where
  "new_session e uid = \<lparr>token = nanoid32 e, sess_user_id = uid, sess_created_at = now_session e\<rparr>"

definition login_request :: "string \<Rightarrow> string \<Rightarrow> request" where
  "login_request u p = demo_request PostLogin None (login_form u p)"

text \<open>The impersonation row that the impersonation handler inserts.\<close>

definition new_impersonation :: "env \<Rightarrow> int \<Rightarrow> impersonation" where
  "new_impersonation e adminId =
     \<lparr>imp_token = nanoid32 e, admin_user_id = adminId, imp_created_at = now_imp e\<rparr>"

text \<open>A second draw of the primitives, for the request that follows.\<close>

definition demo_env2 :: env where
  "demo_env2 = demo_env\<lparr>nanoid32 := ''Uakgb_J5m9g-0JDMbcJqLJUakgb_J5m9''\<rparr>"

definition return_request :: "string \<Rightarrow> request" where
  "return_request t = demo_request PostReturn (Some t) Map.empty"

subsection \<open>Invariants of the store\<close>

text \<open>Every impersonation record carries the token of a stored session.\<close>

definition imp_inv :: "db \<Rightarrow> bool" where
  "imp_inv d = list_all (\<lambda>r. imp_token r \<in> set (map token (sessions d))) (impersonations d)"

text \<open>The invite key \<open>k\<close> is stored and marked as used.\<close>

definition invite_spent :: "db \<Rightarrow> string \<Rightarrow> bool" where
  "invite_spent d k = (case get_invite d k of None \<Rightarrow> False | Some r \<Rightarrow> used_by_truthy r)"

text \<open>
  How one request may change the two tables \<open>sessions\<close> and \<open>impersonations\<close>: it leaves the
  impersonations alone and deletes no session; or it deletes the impersonations of one token
  and at most the sessions of that token; or it adds one impersonation whose token is the
  token of a session, and deletes no session.
\<close>

definition paired_change :: "db \<Rightarrow> db \<Rightarrow> bool" where
  "paired_change d d' =
     ((impersonations d' = impersonations d \<and> set (sessions d) \<subseteq> set (sessions d')) \<or>
      (\<exists>t. impersonations d' = filter (\<lambda>r. imp_token r \<noteq> t) (impersonations d) \<and>
           set (filter (\<lambda>s. token s \<noteq> t) (sessions d)) \<subseteq> set (sessions d')) \<or>
      (\<exists>r. impersonations d' = impersonations d @ [r] \<and>
           set (sessions d) \<subseteq> set (sessions d') \<and> imp_token r \<in> token ` set (sessions d')))"

text \<open>The signup form, and the fields the signup handler reads from a request.\<close>

definition signup_form :: "string \<Rightarrow> string \<Rightarrow> string \<Rightarrow> body" where
  "signup_form u p k = [''username'' \<mapsto> u, ''password'' \<mapsto> p, ''invite'' \<mapsto> k]"

definition signup_request :: "string \<Rightarrow> string \<Rightarrow> string \<Rightarrow> request" where
  "signup_request u p k = demo_request PostSignup None (signup_form u p k)"

definition signup_name :: "request \<Rightarrow> string option" where
  "signup_name req = validateUsername (or_str (form req ''username'') [])"

definition signup_password :: "request \<Rightarrow> string" where
  "signup_password req = or_str (form req ''password'') []"

definition signup_invite :: "request \<Rightarrow> string" where
  "signup_invite req = trim (or_str (form req ''invite'') [])"

text \<open>The row of \<open>users\<close> that a signup inserts.\<close>

definition new_user :: "db \<Rightarrow> env \<Rightarrow> string \<Rightarrow> string \<Rightarrow> user" where
  "new_user d e uname pw =
     \<lparr>user_id = next_user_id d, username = uname, password_hash = bcrypt_hash e pw,
      user_created_at = now_user e, banned = False, ban_reason = []\<rparr>"

text \<open>The foreign key of \<open>pages\<close>: every page belongs to a stored user.\<close>

definition pages_have_users :: "db \<Rightarrow> bool" where
  "pages_have_users d = list_all (\<lambda>p. page_user_id p \<in> set (map user_id (users d))) (pages d)"

text \<open>A change of the store that leaves the sessions, the impersonations and the invite keys alone.\<close>

definition keeps_auth_tables :: "db \<Rightarrow> db \<Rightarrow> bool" where
  "keeps_auth_tables d d' =
     (sessions d' = sessions d \<and> impersonations d' = impersonations d \<and>
      invite_keys d' = invite_keys d)"

subsection \<open>A store in which the slug search for \<open>user\<close> cannot end\<close>

text \<open>
  9999 members own the pages \<open>user\<close>, \<open>user2\<close>, ..., \<open>user9998\<close> and \<open>user-aaaaaa\<close>; the
  user with id 10000 is named \<open>user\<close> and has no page yet; the random source repeats itself.
\<close>

definition stuck_env :: env where
  "stuck_env = demo_env\<lparr>nanoid6 := stuck_rnd\<rparr>"

definition stuck_db :: db where
  "stuck_db =
     \<lparr>users = map (\<lambda>n. demo_user (int n + 1) (''member'' @ dec n) ''secret1'' False) [0..<9999] @
               [demo_user 10000 ''user'' ''secret1'' False],
      pages = full_pages @ [demo_page 9999 ''user-aaaaaa''],
      invite_keys = [], sessions = [], impersonations = []\<rparr>"

subsection \<open>Routing\<close>

text \<open>The GET paths that a route registered before \<open>/:slug\<close> matches.\<close>

definition reserved_path :: "string \<Rightarrow> bool" where
  "reserved_path path =
     (path = ''/'' \<or> path_matches ''/signup'' path \<or> path_matches ''/login'' path \<or>
      path_matches ''/dashboard'' path \<or> path_matches ''/admin'' path \<or>
      path_matches ''/admin/keys'' path \<or> path_matches ''/admin/users'' path)"

text \<open>
  An instance of the two parameters of the routing: no file is served, and a segment without
  a percent sign decodes to itself.
\<close>

definition demo_express :: express where
  "demo_express =
     \<lparr>decodeURIComponent = (\<lambda>s. if CHR ''%'' \<in> set s then None else Some s),
      static_serves = (\<lambda>p. False)\<rparr>"

section \<open>Lemmas\<close>

subsection \<open>Slugs\<close>

lemma is_white_not_slug: "is_white c \<Longrightarrow> \<not> slug_char c"
  by (auto simp: is_white_def slug_char_def is_lower_az_def is_digit_def code_unit_def)

lemma filter_dropWhile_white: "filter slug_char (dropWhile is_white s) = filter slug_char s"
  by (induction s) (auto simp: is_white_not_slug)

lemma filter_trim: "filter slug_char (trim s) = filter slug_char s"
proof -
  have "filter slug_char (trim s) = rev (filter slug_char (dropWhile is_white (rev (dropWhile is_white s))))"
    by (simp add: trim_def rev_filter)
  also have "\<dots> = rev (filter slug_char (rev (dropWhile is_white s)))"
    by (simp only: filter_dropWhile_white)
  also have "\<dots> = filter slug_char (dropWhile is_white s)"
    by (simp add: rev_filter)
  finally show ?thesis by (simp add: filter_dropWhile_white)
qed

lemma normalizeSlug_plain:
  "normalizeSlug s = take 32 (filter slug_char (map toLowerCase_char s))"
  by (simp add: normalizeSlug_def slice0_def filter_trim toLowerCase_def)

lemma normalizeSlug_chars: "list_all slug_char (normalizeSlug s)"
  unfolding normalizeSlug_plain list_all_iff by (auto dest: in_set_takeD)

lemma normalizeSlug_length: "length (normalizeSlug s) \<le> 32"
  by (simp add: normalizeSlug_plain)

lemma validateSlug_eq:
  "validateSlug s = (if length (normalizeSlug s) < 2 then None else Some (normalizeSlug s))"
  using normalizeSlug_chars[of s] normalizeSlug_length[of s]
  by (auto simp: validateSlug_def Let_def)

lemma find_distinct_key:
  "distinct (map f xs) \<Longrightarrow> x \<in> set xs \<Longrightarrow> find (\<lambda>y. f y = f x) xs = Some x"
  by (induction xs) (auto simp: image_iff)

lemma find_none_key: "(find (\<lambda>y. f y = k) xs = None) = (k \<notin> f ` set xs)"
  by (auto simp: find_None_iff)

subsection \<open>Page edits\<close>

lemma body_url_kept: "(body_url b i \<noteq> []) = link_kept b i"
  by (auto simp: body_url_def link_kept_def validateUrl_def Let_def slice0_def)

lemma body_url_saved: "link_kept b i \<Longrightarrow>
  \<lparr>link_label = or_str (Some (body_label b i)) ''Link'', link_url = body_url b i\<rparr> = link_saved b i"
  by (auto simp: body_url_def body_label_def link_kept_def link_saved_def validateUrl_def
        Let_def or_str_def)

lemma collectLinks_from:
  "i \<le> 14 \<Longrightarrow> collectLinks b i acc = acc @ map (link_saved b) (filter (link_kept b) [i..<14])"
proof (induction b i acc rule: collectLinks.induct)
  case (1 b i links)
  show ?case
  proof (cases "i < 14")
    case False
    with 1(4) have "i = 14" by simp
    then show ?thesis by (simp add: collectLinks.simps)
  next
    case True
    then have up: "[i..<14] = i # [i + 1..<14]" by (simp add: upt_conv_Cons)
    show ?thesis
    proof (cases "link_kept b i")
      case True
      then have u: "body_url b i \<noteq> []" by (simp add: body_url_kept)
      have "collectLinks b i links = collectLinks b (i + 1)
               (links @ [\<lparr>link_label = or_str (Some (body_label b i)) ''Link'',
                          link_url = body_url b i\<rparr>])"
        using \<open>i < 14\<close> u by (subst collectLinks.simps) (simp add: Let_def)
      also have "\<dots> = (links @ [link_saved b i]) @
                         map (link_saved b) (filter (link_kept b) [i + 1..<14])"
        using 1(3)[OF \<open>i < 14\<close> refl refl] \<open>i < 14\<close> u body_url_saved[OF True] by simp
      finally show ?thesis using True up by simp
    next
      case False
      then have u: "body_url b i = []" using body_url_kept[of b i] by simp
      have "collectLinks b i links = collectLinks b (i + 1) links"
        using \<open>i < 14\<close> u by (subst collectLinks.simps) (simp add: Let_def)
      also have "\<dots> = links @ map (link_saved b) (filter (link_kept b) [i + 1..<14])"
      proof (cases "body_label b i = []")
        case True
        then show ?thesis using 1(1)[OF \<open>i < 14\<close> refl refl] u \<open>i < 14\<close> by simp
      next
        case False
        then show ?thesis using 1(2)[OF \<open>i < 14\<close> refl refl] u \<open>i < 14\<close> by simp
      qed
      finally show ?thesis using False up by simp
    qed
  qed
qed

lemma collectLinks_spec: "collectLinks b 0 [] = spec_links b"
  by (simp add: collectLinks_from spec_links_def)

lemma find_Some_mem: "find P xs = Some x \<Longrightarrow> x \<in> set xs \<and> P x"
  by (auto simp: find_Some_iff)

lemma savePage_unfold:
  "savePageForUser d e uid req =
     (case get_page_by_user d uid of
        None \<Rightarrow> (Inr (Some ''No page''), d)
      | Some pg \<Rightarrow>
         (let slg = normalizeSlug (or_str (form req ''slug'') (slug pg)) in
          if length slg < 2 then (Inr (Some ''Slug must be 2-32: a-z 0-9 _ -''), d)
          else if (case get_page_by_slug d slg of None \<Rightarrow> False | Some own \<Rightarrow> page_user_id own \<noteq> uid)
          then (Inr (Some ''That slug is taken''), d)
          else (case update_page d uid (edited e req slg) slg of
                  Inl err \<Rightarrow> (Inl err, d) | Inr d' \<Rightarrow> (Inr None, d'))))"
  unfolding savePageForUser_def Let_def validateSlug_eq edited_def
  by (simp split: option.splits)


lemma edited_fields [simp]:
  "page_user_id (edited e req slg p) = page_user_id p"
  "slug (edited e req slg p) = slg"
  "links_json (edited e req slg p) = collectLinks (form req) 0 []"
  by (simp_all add: edited_def)

lemma savePage_slug_error:
  assumes "get_page_by_user d uid = Some pg"
  shows "(fst (savePageForUser d e uid req) = Inr (Some ''Slug must be 2-32: a-z 0-9 _ -'')) =
         (length (normalizeSlug (or_str (form req ''slug'') (slug pg))) < 2)"
  using assms
  by (simp add: savePage_unfold Let_def split: sum.splits)

lemma savePage_success:
  assumes "savePageForUser d e uid req = (Inr None, d')"
  shows "\<exists>pg. get_page_by_user d uid = Some pg \<and>
           2 \<le> length (normalizeSlug (or_str (form req ''slug'') (slug pg))) \<and>
           pages d' = map (\<lambda>p. if page_user_id p = uid
                then edited e req (normalizeSlug (or_str (form req ''slug'') (slug pg))) p else p) (pages d)"
  using assms
  by (auto simp: savePage_unfold Let_def update_page_def
           split: option.splits sum.splits if_splits)

lemma or_str_empty: "a = None \<or> a = Some [] \<Longrightarrow> or_str a b = b"
  by (auto simp: or_str_def)

lemma find_map_same:
  "(\<And>x. P (g x) = P x) \<Longrightarrow> find P (map g xs) = map_option g (find P xs)"
  by (induction xs) auto

lemma savePage_keep_slug:
  assumes pg: "get_page_by_user d uid = Some pg"
    and empty: "form req ''slug'' = None \<or> form req ''slug'' = Some []"
    and wf: "validateSlug (slug pg) = Some (slug pg)"
    and dist: "distinct (map slug (pages d))"
  shows "\<exists>d' pg'. savePageForUser d e uid req = (Inr None, d') \<and>
            get_page_by_user d' uid = Some pg' \<and> slug pg' = slug pg"
proof -
  from pg have mem: "pg \<in> set (pages d)" and own: "page_user_id pg = uid"
    by (auto simp: get_page_by_user_def dest: find_Some_mem)
  have s: "or_str (form req ''slug'') (slug pg) = slug pg"
    using empty by (rule or_str_empty)
  from wf have n: "normalizeSlug (slug pg) = slug pg" and len: "\<not> length (slug pg) < 2"
    by (auto simp: validateSlug_eq split: if_splits)
  have owner: "get_page_by_slug d (slug pg) = Some pg"
    unfolding get_page_by_slug_def using dist mem by (rule find_distinct_key)
  have uniq: "\<And>q. q \<in> set (pages d) \<Longrightarrow> slug q = slug pg \<Longrightarrow> q = pg"
    using dist mem by (meson distinct_map inj_onD)
  then have noclash: "\<not> list_ex (\<lambda>q. page_user_id q \<noteq> uid \<and> slug q = slug pg) (pages d)"
    using own by (auto simp: list_ex_iff)
  define d' where "d' = d\<lparr>pages := map (\<lambda>p. if page_user_id p = uid then edited e req (slug pg) p else p) (pages d)\<rparr>"
  have sv: "savePageForUser d e uid req = (Inr None, d')"
    using pg s n len owner own noclash
    by (simp add: savePage_unfold Let_def update_page_def d'_def)
  have "get_page_by_user d' uid = map_option (\<lambda>p. if page_user_id p = uid then edited e req (slug pg) p else p) (find (\<lambda>p. page_user_id p = uid) (pages d))"
    unfolding get_page_by_user_def d'_def by (simp add: find_map_same)
  then have "get_page_by_user d' uid = Some (edited e req (slug pg) pg)"
    using pg own by (simp add: get_page_by_user_def)
  with sv show ?thesis by simp
qed

subsection \<open>The slug search\<close>

lemma code_unit_digit: "d < 10 \<Longrightarrow> code_unit (digit_char d) = 48 + d"
  by (simp add: code_unit_def digit_char_def)

lemma digit_char_inj:
  assumes a: "a < 10" and b: "b < 10" and eq: "digit_char a = digit_char b"
  shows "a = b"
proof -
  have "code_unit (digit_char a) = code_unit (digit_char b)" by (simp only: eq)
  then have "48 + a = 48 + b" by (simp only: code_unit_digit[OF a] code_unit_digit[OF b])
  then show ?thesis by (simp only: add_left_cancel)
qed

lemma dec_small: "n < 10 \<Longrightarrow> dec n = [digit_char n]"
  by (subst dec.simps) simp

lemma dec_big: "\<not> n < 10 \<Longrightarrow> dec n = dec (n div 10) @ [digit_char (n mod 10)]"
  by (subst dec.simps) simp

lemma dec_nonempty: "dec n \<noteq> []"
proof (cases "n < 10")
  case True
  show ?thesis by (simp only: dec_small[OF True]) simp
next
  case False
  show ?thesis by (simp only: dec_big[OF False]) simp
qed

lemma dec_digits: "c \<in> set (dec n) \<Longrightarrow> is_digit c"
proof (induction n arbitrary: c rule: dec.induct)
  case (1 n)
  show ?case
  proof (cases "n < 10")
    case True
    have "c = digit_char n" using 1(2) by (simp only: dec_small[OF True]) simp
    then show ?thesis using code_unit_digit[OF True] True by (simp add: is_digit_def)
  next
    case False
    have m: "n mod 10 < 10" by simp
    from 1(2) have "c \<in> set (dec (n div 10)) \<or> c = digit_char (n mod 10)"
      by (simp only: dec_big[OF False]) auto
    then show ?thesis
    proof
      assume "c \<in> set (dec (n div 10))"
      then show ?thesis by (rule 1(1)[OF False])
    next
      assume "c = digit_char (n mod 10)"
      then show ?thesis using code_unit_digit[OF m] by (simp add: is_digit_def)
    qed
  qed
qed

lemma dec_inj: "dec n = dec m \<Longrightarrow> n = m"
proof (induction n arbitrary: m rule: dec.induct)
  case (1 n)
  show ?case
  proof (cases "n < 10")
    case True
    show ?thesis
    proof (cases "m < 10")
      case mt: True
      from 1(2) have "digit_char n = digit_char m"
        by (simp only: dec_small[OF True] dec_small[OF mt]) simp
      then show ?thesis by (rule digit_char_inj[OF True mt])
    next
      case False
      from 1(2) have "[digit_char n] = dec (m div 10) @ [digit_char (m mod 10)]"
        by (simp only: dec_small[OF True] dec_big[OF False])
      then show ?thesis using dec_nonempty[of "m div 10"] by simp
    qed
  next
    case False
    show ?thesis
    proof (cases "m < 10")
      case True
      from 1(2) have "dec (n div 10) @ [digit_char (n mod 10)] = [digit_char m]"
        by (simp only: dec_small[OF True] dec_big[OF False])
      then show ?thesis using dec_nonempty[of "n div 10"] by simp
    next
      case mb: False
      from 1(2) have "dec (n div 10) @ [digit_char (n mod 10)] = dec (m div 10) @ [digit_char (m mod 10)]"
        by (simp only: dec_big[OF False] dec_big[OF mb])
      then have e: "dec (n div 10) = dec (m div 10)"
        and d: "digit_char (n mod 10) = digit_char (m mod 10)"
        by simp_all
      from 1(1)[OF False e] have q: "n div 10 = m div 10" .
      have l1: "n mod 10 < 10" and l2: "m mod 10 < 10" by simp_all
      have r: "n mod 10 = m mod 10" by (rule digit_char_inj[OF l1 l2 d])
      have "n = n div 10 * 10 + n mod 10" by (rule div_mult_mod_eq[symmetric])
      also have "\<dots> = m div 10 * 10 + m mod 10" by (simp only: q r)
      also have "\<dots> = m" by (rule div_mult_mod_eq)
      finally show ?thesis .
    qed
  qed
qed

lemma loop_at_step:
  "loop_at ps rnd base n =
     (if slug_taken ps (candidate rnd base n) then loop_at ps rnd base (Suc n)
      else Some (candidate rnd base n))"
proof (cases "n + 3 > 9999")
  case True
  then have a: "n + 1 - 9998 = n - 9997" "Suc (n - 9997) = n + 1 - 9997" by auto
  show ?thesis unfolding loop_at_def using True
    by (subst slugLoop.simps) (simp add: candidate_def a)
next
  case False
  then have a: "n - 9997 = 0" "n + 1 - 9997 = 0" by auto
  show ?thesis unfolding loop_at_def using False
    by (subst slugLoop.simps) (simp add: candidate_def a)
qed

lemma loop_at_first_free:
  assumes "\<not> slug_taken ps (candidate rnd base n)"
    and "\<forall>j. m \<le> j \<and> j < n \<longrightarrow> slug_taken ps (candidate rnd base j)"
    and "m \<le> n"
  shows "loop_at ps rnd base m = Some (candidate rnd base n)"
  using assms
proof (induction "n - m" arbitrary: m)
  case 0
  then have "m = n" by simp
  then show ?case using 0 by (subst loop_at_step) simp
next
  case (Suc d)
  then have lt: "m < n" by simp
  then have tk: "slug_taken ps (candidate rnd base m)" using Suc.prems by simp
  have "loop_at ps rnd base (Suc m) = Some (candidate rnd base n)"
    by (rule Suc.hyps(1)) (use Suc lt in auto)
  then show ?case using tk by (subst loop_at_step) simp
qed

lemma first_free_from_step:
  assumes IH: "\<And>ps rnd base slg i k y. loop ps rnd base slg i k = Some y \<Longrightarrow>
                 first_free_from ps rnd base slg i k y"
    and body: "(if slug_taken ps slg
      then if 9999 < i + 1
           then loop ps rnd base (base @ ''-'' @ toLowerCase (rnd k)) (i + 1) (k + 1)
           else loop ps rnd base (base @ dec i) (i + 1) k
      else Some slg) = Some y"
  shows "first_free_from ps rnd base slg i k y"
  unfolding first_free_from_def
proof (intro allI impI)
  fix n assume st: "slg = candidate rnd base n \<and> i = n + 2 \<and> k = n - 9997"
  show "\<exists>m\<ge>n. y = candidate rnd base m \<and> \<not> slug_taken ps y \<and>
           (\<forall>j. n \<le> j \<and> j < m \<longrightarrow> slug_taken ps (candidate rnd base j))"
  proof (cases "slug_taken ps slg")
    case False
    with body have "y = slg" by simp
    then show ?thesis using False st by auto
  next
    case True
    have "\<exists>s' i' k'. loop ps rnd base s' i' k' = Some y \<and> s' = candidate rnd base (Suc n) \<and>
            i' = Suc n + 2 \<and> k' = Suc n - 9997"
    proof (cases "9999 < i + 1")
      case True
      then have a: "Suc n - 9998 = k" "k + 1 = Suc n - 9997" using st by auto
      have c: "candidate rnd base (Suc n) = base @ ''-'' @ toLowerCase (rnd k)"
        using True st a(1) by (simp add: candidate_def)
      have "loop ps rnd base (base @ ''-'' @ toLowerCase (rnd k)) (i + 1) (k + 1) = Some y"
        using body \<open>slug_taken ps slg\<close> True by simp
      then show ?thesis using c a(2) st by auto
    next
      case False
      then have a: "k = 0" "Suc n - 9997 = 0" using st by auto
      have c: "candidate rnd base (Suc n) = base @ dec i"
        using False st by (simp add: candidate_def)
      have "loop ps rnd base (base @ dec i) (i + 1) k = Some y"
        using body \<open>slug_taken ps slg\<close> False by simp
      then show ?thesis using c a st by auto
    qed
    then obtain s' i' k' where nxt: "loop ps rnd base s' i' k' = Some y"
      and s': "s' = candidate rnd base (Suc n) \<and> i' = Suc n + 2 \<and> k' = Suc n - 9997" by blast
    from IH[OF nxt] s'
    obtain m where m: "m \<ge> Suc n" "y = candidate rnd base m" "\<not> slug_taken ps y"
      "\<forall>j. Suc n \<le> j \<and> j < m \<longrightarrow> slug_taken ps (candidate rnd base j)"
      unfolding first_free_from_def by blast
    have "\<forall>j. n \<le> j \<and> j < m \<longrightarrow> slug_taken ps (candidate rnd base j)"
    proof (intro allI impI)
      fix j assume "n \<le> j \<and> j < m"
      then show "slug_taken ps (candidate rnd base j)"
        using m(4) True st by (cases "j = n") auto
    qed
    with m show ?thesis by (intro exI[of _ m]) auto
  qed
qed

lemma slugLoop_result:
  assumes "slugLoop ps rnd base slg i k = Some y"
  shows "first_free_from ps rnd base slg i k y"
  by (rule slugLoop.raw_induct[where P = first_free_from, OF _ assms])
     (rule first_free_from_step)

lemma uniqueSlugEnsure_loop_at:
  "uniqueSlugEnsure ps rnd u = loop_at ps rnd (uniqueSlug u) 0"
  by (simp add: uniqueSlugEnsure_def loop_at_def candidate_def Let_def numeral_2_eq_2)

lemma uniqueSlugEnsure_Some_iff:
  "(uniqueSlugEnsure ps rnd u = Some y) =
     (\<exists>n. y = candidate rnd (uniqueSlug u) n \<and> \<not> slug_taken ps y \<and>
          (\<forall>j<n. slug_taken ps (candidate rnd (uniqueSlug u) j)))"
proof
  assume "uniqueSlugEnsure ps rnd u = Some y"
  then have "slugLoop ps rnd (uniqueSlug u) (candidate rnd (uniqueSlug u) 0) (0 + 2) (0 - 9997) = Some y"
    by (simp only: uniqueSlugEnsure_loop_at loop_at_def)
  from slugLoop_result[OF this]
  show "\<exists>n. y = candidate rnd (uniqueSlug u) n \<and> \<not> slug_taken ps y \<and>
          (\<forall>j<n. slug_taken ps (candidate rnd (uniqueSlug u) j))"
    unfolding first_free_from_def by auto
next
  assume "\<exists>n. y = candidate rnd (uniqueSlug u) n \<and> \<not> slug_taken ps y \<and>
          (\<forall>j<n. slug_taken ps (candidate rnd (uniqueSlug u) j))"
  then obtain n where n: "y = candidate rnd (uniqueSlug u) n" "\<not> slug_taken ps y"
    "\<forall>j<n. slug_taken ps (candidate rnd (uniqueSlug u) j)" by blast
  have "loop_at ps rnd (uniqueSlug u) 0 = Some (candidate rnd (uniqueSlug u) n)"
    by (rule loop_at_first_free) (use n in auto)
  then show "uniqueSlugEnsure ps rnd u = Some y"
    using n(1) by (simp add: uniqueSlugEnsure_loop_at)
qed

lemma uniqueSlugEnsure_None_iff:
  "(uniqueSlugEnsure ps rnd u = None) = (\<forall>n. slug_taken ps (candidate rnd (uniqueSlug u) n))"
proof
  assume none: "uniqueSlugEnsure ps rnd u = None"
  show "\<forall>n. slug_taken ps (candidate rnd (uniqueSlug u) n)"
  proof (rule ccontr)
    assume "\<not> (\<forall>n. slug_taken ps (candidate rnd (uniqueSlug u) n))"
    then obtain n where "\<not> slug_taken ps (candidate rnd (uniqueSlug u) n)" by blast
    then have ex: "\<exists>n. \<not> slug_taken ps (candidate rnd (uniqueSlug u) n)" by blast
    define l where "l = (LEAST n. \<not> slug_taken ps (candidate rnd (uniqueSlug u) n))"
    have "\<not> slug_taken ps (candidate rnd (uniqueSlug u) l)"
      unfolding l_def using ex by (rule LeastI_ex)
    moreover have "\<forall>j<l. slug_taken ps (candidate rnd (uniqueSlug u) j)"
      unfolding l_def using not_less_Least by blast
    ultimately have "uniqueSlugEnsure ps rnd u = Some (candidate rnd (uniqueSlug u) l)"
      unfolding uniqueSlugEnsure_Some_iff by blast
    with none show False by simp
  qed
next
  assume all: "\<forall>n. slug_taken ps (candidate rnd (uniqueSlug u) n)"
  show "uniqueSlugEnsure ps rnd u = None"
  proof (cases "uniqueSlugEnsure ps rnd u")
    case (Some y)
    then show ?thesis using all unfolding uniqueSlugEnsure_Some_iff by auto
  qed simp
qed

lemma candidate_inj_seq:
  assumes "n \<le> 9997" "m \<le> 9997" "candidate rnd base n = candidate rnd base m"
  shows "n = m"
proof -
  show ?thesis
  proof (cases "n = 0")
    case True
    then show ?thesis using assms by (cases "m = 0") (auto simp: candidate_def dec_nonempty)
  next
    case False
    then show ?thesis using assms
      by (cases "m = 0") (auto simp: candidate_def dec_nonempty dest: dec_inj)
  qed
qed

lemma slug_taken_iff: "slug_taken ps s = (s \<in> slug ` set ps)"
  by (auto simp: slug_taken_def list_ex_iff)

lemma few_pages_free_candidate:
  assumes "length ps < 9998"
  shows "\<exists>n\<le>9997. \<not> slug_taken ps (candidate rnd base n)"
proof (rule ccontr)
  assume "\<not> ?thesis"
  then have sub: "candidate rnd base ` {..9997} \<subseteq> slug ` set ps"
    by (auto simp: slug_taken_iff)
  have inj: "inj_on (candidate rnd base) {..9997}"
    by (rule inj_onI) (auto dest: candidate_inj_seq)
  have "card (candidate rnd base ` {..9997}) = 9998"
    using card_image[OF inj] by simp
  moreover have "card (slug ` set ps) \<le> length ps"
    by (meson card_image_le card_length le_trans List.finite_set)
  moreover have "card (candidate rnd base ` {..9997}) \<le> card (slug ` set ps)"
    by (rule card_mono[OF _ sub]) simp
  ultimately show False using assms by simp
qed

subsection \<open>Fields written by a page edit\<close>

lemma savePage_success_fields:
  assumes sv: "savePageForUser d e uid req = (Inr None, d')"
    and pg: "get_page_by_user d uid = Some pg"
    and p: "p \<in> set (pages d')" "page_user_id p = uid"
  shows "slug p = normalizeSlug (or_str (form req ''slug'') (slug pg)) \<and>
         links_json p = collectLinks (form req) 0 []"
proof -
  from savePage_success[OF sv] pg
  have pages': "pages d' = map (\<lambda>p. if page_user_id p = uid
                then edited e req (normalizeSlug (or_str (form req ''slug'') (slug pg))) p else p) (pages d)"
    by simp
  from p(1) obtain q where q: "q \<in> set (pages d)"
    "p = (if page_user_id q = uid
                then edited e req (normalizeSlug (or_str (form req ''slug'') (slug pg))) q else q)"
    unfolding pages' by auto
  show ?thesis
  proof (cases "page_user_id q = uid")
    case True
    with q(2) show ?thesis by simp
  next
    case False
    with q(2) p(2) show ?thesis by simp
  qed
qed

lemma savePage_success_page:
  assumes sv: "savePageForUser d e uid req = (Inr None, d')"
  shows "\<exists>pg. get_page_by_user d uid = Some pg"
  using savePage_success[OF sv] by blast

subsection \<open>The exhausted pages table\<close>

lemma uniqueSlug_user: "uniqueSlug ''user'' = ''user''"
  by code_simp

lemma slug_demo_page: "slug (demo_page i s) = s"
  by (simp add: demo_page_def)

lemma full_pages_slugs: "slug ` set full_pages = candidate stuck_rnd ''user'' ` {0..<9998}"
  by (simp add: full_pages_def image_image slug_demo_page)

lemma full_pages_taken: "n < 9998 \<Longrightarrow> slug_taken full_pages (candidate stuck_rnd ''user'' n)"
  by (simp add: slug_taken_iff full_pages_slugs)

lemma candidate_tail: "9998 \<le> n \<Longrightarrow> candidate stuck_rnd ''user'' n = ''user-aaaaaa''"
proof -
  have "toLowerCase ''aaaaaa'' = ''aaaaaa''" by code_simp
  then show "9998 \<le> n \<Longrightarrow> candidate stuck_rnd ''user'' n = ''user-aaaaaa''"
    by (simp add: candidate_def stuck_rnd_def)
qed

lemma digit_9: "digit_char 9 = CHR ''9''"
  by code_simp

lemma dec_9999: "dec 9999 = ''9999''"
  by (simp add: dec.simps digit_9)

lemma minus_not_digit: "\<not> is_digit CHR ''-''"
  by code_simp

lemma full_pages_no_tail: "\<not> slug_taken full_pages ''user-aaaaaa''"
proof
  assume "slug_taken full_pages ''user-aaaaaa''"
  then obtain n where n: "n < 9998" "candidate stuck_rnd ''user'' n = ''user-aaaaaa''"
    by (auto simp: slug_taken_iff full_pages_slugs)
  show False
  proof (cases "n = 0")
    case True
    with n(2) show False by (simp add: candidate_def)
  next
    case False
    with n have "dec (n + 1) = ''-aaaaaa''" by (simp add: candidate_def)
    then have "CHR ''-'' \<in> set (dec (n + 1))" by simp
    then show False using minus_not_digit by (blast dest: dec_digits)
  qed
qed

lemma full_pages_no_9999: "\<not> slug_taken full_pages ''user9999''"
proof
  assume "slug_taken full_pages ''user9999''"
  then obtain n where n: "n < 9998" "candidate stuck_rnd ''user'' n = ''user9999''"
    by (auto simp: slug_taken_iff full_pages_slugs)
  show False
  proof (cases "n = 0")
    case True
    with n(2) show False by (simp add: candidate_def)
  next
    case False
    with n have "dec (n + 1) = dec 9999" by (simp add: candidate_def dec_9999)
    then have "n + 1 = 9999" by (rule dec_inj)
    with n(1) show False by simp
  qed
qed

subsection \<open>Creating the page of a user\<close>

lemma new_page_fields [simp]:
  "page_user_id (new_page e uid uname s) = uid"
  "slug (new_page e uid uname s) = s"
  by (simp_all add: new_page_def)

lemma ensurePage_existing:
  "get_page_by_user d uid = Some pg \<Longrightarrow> ensurePageForUser d e uid uname = (Returned, d)"
  by (simp add: ensurePageForUser_def)

lemma ensurePage_diverges:
  "get_page_by_user d uid = None \<Longrightarrow> uniqueSlugEnsure (pages d) (nanoid6 e) uname = None \<Longrightarrow>
   ensurePageForUser d e uid uname = (Diverges, d)"
  by (simp add: ensurePageForUser_def)

lemma get_page_None_iff: "(get_page_by_user d uid = None) = (uid \<notin> page_user_id ` set (pages d))"
  unfolding get_page_by_user_def by (rule find_none_key)

lemma ensurePage_new:
  assumes none: "get_page_by_user d uid = None"
    and s: "uniqueSlugEnsure (pages d) (nanoid6 e) uname = Some s"
    and usr: "uid \<in> user_id ` set (users d)"
  shows "ensurePageForUser d e uid uname =
           (Returned, d\<lparr>pages := pages d @ [new_page e uid uname s]\<rparr>)"
proof -
  from s have "\<not> slug_taken (pages d) s"
    using iffD1[OF uniqueSlugEnsure_Some_iff, of "pages d" "nanoid6 e" uname s] by blast
  then have fs: "s \<notin> slug ` set (pages d)" by (simp add: slug_taken_iff)
  from none have fu: "uid \<notin> page_user_id ` set (pages d)" by (simp add: get_page_None_iff)
  have ins: "insert_page d (new_page e uid uname s) =
               Inr (d\<lparr>pages := pages d @ [new_page e uid uname s]\<rparr>)"
    using fs fu usr by (simp add: insert_page_def)
  show ?thesis
    using none s ins by (simp add: ensurePageForUser_def new_page_def)
qed

lemma ensurePage_rejected:
  assumes none: "get_page_by_user d uid = None"
    and s: "uniqueSlugEnsure (pages d) (nanoid6 e) uname = Some s"
    and usr: "uid \<notin> user_id ` set (users d)"
  shows "ensurePageForUser d e uid uname = (Throws ForeignKeyViolation, d)"
proof -
  from s have "\<not> slug_taken (pages d) s"
    using iffD1[OF uniqueSlugEnsure_Some_iff, of "pages d" "nanoid6 e" uname s] by blast
  then have fs: "s \<notin> slug ` set (pages d)" by (simp add: slug_taken_iff)
  from none have fu: "uid \<notin> page_user_id ` set (pages d)" by (simp add: get_page_None_iff)
  have ins: "insert_page d (new_page e uid uname s) = Inl ForeignKeyViolation"
    using fs fu usr by (simp add: insert_page_def)
  show ?thesis
    using none s ins by (simp add: ensurePageForUser_def new_page_def)
qed

lemma ensurePage_cases:
  "(\<exists>pg. get_page_by_user d uid = Some pg \<and> ensurePageForUser d e uid uname = (Returned, d)) \<or>
   (get_page_by_user d uid = None \<and> uniqueSlugEnsure (pages d) (nanoid6 e) uname = None \<and>
      ensurePageForUser d e uid uname = (Diverges, d)) \<or>
   (\<exists>s. get_page_by_user d uid = None \<and> uniqueSlugEnsure (pages d) (nanoid6 e) uname = Some s \<and>
      uid \<in> user_id ` set (users d) \<and>
      ensurePageForUser d e uid uname = (Returned, d\<lparr>pages := pages d @ [new_page e uid uname s]\<rparr>)) \<or>
   (\<exists>s. get_page_by_user d uid = None \<and> uniqueSlugEnsure (pages d) (nanoid6 e) uname = Some s \<and>
      uid \<notin> user_id ` set (users d) \<and>
      ensurePageForUser d e uid uname = (Throws ForeignKeyViolation, d))"
proof (cases "get_page_by_user d uid")
  case (Some pg)
  then show ?thesis using ensurePage_existing[OF Some] by simp
next
  case None
  show ?thesis
  proof (cases "uniqueSlugEnsure (pages d) (nanoid6 e) uname")
    case n: None
    then show ?thesis using None ensurePage_diverges[OF None n] by simp
  next
    case (Some s)
    show ?thesis
    proof (cases "uid \<in> user_id ` set (users d)")
      case True
      then show ?thesis using None Some ensurePage_new[OF None Some True] by simp
    next
      case False
      then show ?thesis using None Some ensurePage_rejected[OF None Some False] by simp
    qed
  qed
qed

lemma count_key_absent: "k \<notin> f ` set xs \<Longrightarrow> filter (\<lambda>y. f y = k) xs = []"
  by (induction xs) auto

lemma count_key_distinct:
  "distinct (map f xs) \<Longrightarrow> x \<in> set xs \<Longrightarrow> length (filter (\<lambda>y. f y = f x) xs) = 1"
proof (induction xs)
  case Nil
  then show ?case by simp
next
  case (Cons a xs)
  show ?case
  proof (cases "f a = f x")
    case True
    then have "f x \<notin> f ` set xs" using Cons.prems(1) by simp
    then have "filter (\<lambda>y. f y = f x) xs = []" by (rule count_key_absent)
    then show ?thesis using True by simp
  next
    case False
    then have "x \<in> set xs" using Cons.prems(2) by auto
    then show ?thesis using Cons.IH Cons.prems(1) False by simp
  qed
qed

lemma find_append_new:
  "k \<notin> f ` set xs \<Longrightarrow> f x = k \<Longrightarrow> find (\<lambda>y. f y = k) (xs @ [x]) = Some x"
  by (induction xs) auto

subsection \<open>Middleware and the ban handlers\<close>

lemma with_auth_pass:
  "getUserFromCookie d (cookie req) = Some a \<Longrightarrow> \<not> banned a \<Longrightarrow> with_auth d req k = k a"
  by (simp add: with_auth_def requireAuth_def)

lemma with_auth_banned:
  "getUserFromCookie d (cookie req) = Some a \<Longrightarrow> banned a \<Longrightarrow>
   with_auth d req k = answer (Status 403 ''Banned'') d"
  by (simp add: with_auth_def requireAuth_def)

lemma with_auth_anonymous:
  "getUserFromCookie d (cookie req) = None \<Longrightarrow> with_auth d req k = answer (Redirect ''/login'') d"
  by (simp add: with_auth_def requireAuth_def)

lemma with_admin_pass:
  "getUserFromCookie d (cookie req) = Some a \<Longrightarrow> \<not> banned a \<Longrightarrow> user_id a = 1 \<Longrightarrow>
   with_admin d req k = k a"
  by (simp add: with_admin_def with_auth_pass requireAdmin_def)

lemma with_admin_banned:
  "getUserFromCookie d (cookie req) = Some a \<Longrightarrow> banned a \<Longrightarrow>
   with_admin d req k = answer (Status 403 ''Banned'') d"
  by (simp add: with_admin_def with_auth_banned)

lemma with_admin_not_admin:
  "getUserFromCookie d (cookie req) = Some a \<Longrightarrow> \<not> banned a \<Longrightarrow> user_id a \<noteq> 1 \<Longrightarrow>
   with_admin d req k = answer (Status 403 ''Forbidden'') d"
  by (simp add: with_admin_def with_auth_pass requireAdmin_def)

lemma with_admin_anonymous:
  "getUserFromCookie d (cookie req) = None \<Longrightarrow> with_admin d req k = answer (Redirect ''/login'') d"
  by (simp add: with_admin_def with_auth_anonymous)

lemma handle_banned:
  assumes r: "authenticated_route (route r)"
    and u: "getUserFromCookie d (cookie r) = Some u" and b: "banned u"
  shows "handle d e r = answer (Status 403 ''Banned'') d"
  using r with_auth_banned[OF u b] with_admin_banned[OF u b]
  by (cases "route r")
     (simp_all add: handle_def authenticated_route_def get_dashboard_def post_dashboard_def
        post_admin_keys_def post_ban_def post_unban_def post_impersonate_def post_return_def)

lemma update_user_ban_frame [simp]:
  "sessions (update_user_ban d b rs x) = sessions d"
  "pages (update_user_ban d b rs x) = pages d"
  "invite_keys (update_user_ban d b rs x) = invite_keys d"
  "impersonations (update_user_ban d b rs x) = impersonations d"
  by (simp_all add: update_user_ban_def)

lemma users_after_ban: "users (update_user_ban d True rs x) = map (ban_row rs x) (users d)"
  by (simp add: update_user_ban_def ban_row_def)

lemma users_after_unban: "users (update_user_ban d False [] x) = map (unban_row x) (users d)"
  by (simp add: update_user_ban_def unban_row_def)

lemma user_id_ban_row [simp]: "user_id (ban_row rs x v) = user_id v"
  by (simp add: ban_row_def)

lemma user_id_unban_row [simp]: "user_id (unban_row x v) = user_id v"
  by (simp add: unban_row_def)

lemma getUser_map_users:
  assumes "\<And>v. user_id (g v) = user_id v"
    and "sessions d' = sessions d" and "users d' = map g (users d)"
  shows "getUserFromCookie d' c = map_option g (getUserFromCookie d c)"
proof -
  have "\<And>i. get_user_by_id d' i = map_option g (get_user_by_id d i)"
    unfolding get_user_by_id_def assms(3) by (rule find_map_same) (simp add: assms(1))
  then show ?thesis
    by (simp add: getUserFromCookie_def get_session_def assms(2) split: option.splits)
qed

lemma getUser_after_ban:
  "getUserFromCookie (update_user_ban d True rs x) c = map_option (ban_row rs x) (getUserFromCookie d c)"
  by (rule getUser_map_users) (simp_all add: users_after_ban)

lemma getUser_after_unban:
  "getUserFromCookie (update_user_ban d False [] x) c = map_option (unban_row x) (getUserFromCookie d c)"
  by (rule getUser_map_users) (simp_all add: users_after_unban)

lemma post_ban_admin:
  assumes "getUserFromCookie d (cookie req) = Some a" "user_id a = 1" "\<not> banned a"
    and "param_id req = Some x" "x \<noteq> 0" "x \<noteq> 1"
  shows "post_ban d req = answer (Redirect ''/admin/users'')
           (update_user_ban d True (slice0 120 (or_str (form req ''reason'') [])) x)"
  using assms by (simp add: post_ban_def with_admin_pass id_falsy_def)

lemma post_unban_admin:
  assumes "getUserFromCookie d (cookie req) = Some a" "user_id a = 1" "\<not> banned a"
    and "param_id req = Some x" "x \<noteq> 0" "x \<noteq> 1"
  shows "post_unban d req = answer (Redirect ''/admin/users'') (update_user_ban d False [] x)"
  using assms by (simp add: post_unban_def with_admin_pass id_falsy_def)

lemma answer_fields [simp]:
  "resp (answer r d) = r" "store (answer r d) = d" "set_cookie (answer r d) = KeepCookie"
  by (simp_all add: answer_def)

subsection \<open>Login\<close>

lemma ensurePage_frame:
  assumes "ensurePageForUser d e uid uname = (f, d1)"
  shows "sessions d1 = sessions d \<and> users d1 = users d \<and> invite_keys d1 = invite_keys d \<and>
         impersonations d1 = impersonations d"
  using ensurePage_cases[of d uid e uname] assms by auto

lemma ensurePage_returns:
  assumes "get_page_by_user d uid \<noteq> None \<or>
           (uid \<in> user_id ` set (users d) \<and>
            \<not> slug_taken (pages d) (candidate (nanoid6 e) (uniqueSlug uname) n))"
  shows "\<exists>d1. ensurePageForUser d e uid uname = (Returned, d1) \<and>
              sessions d1 = sessions d \<and> users d1 = users d \<and>
              invite_keys d1 = invite_keys d \<and> impersonations d1 = impersonations d \<and>
              page_rows d1 uid \<ge> 1 \<and>
              (pages d1 = pages d \<or> (\<exists>s. pages d1 = pages d @ [new_page e uid uname s] \<and>
                   get_page_by_user d uid = None))"
proof (cases "get_page_by_user d uid")
  case (Some pg)
  then have mem: "pg \<in> set (pages d)" and own: "page_user_id pg = uid"
    by (auto simp: get_page_by_user_def dest: find_Some_mem)
  then have "filter (\<lambda>p. page_user_id p = uid) (pages d) \<noteq> []"
    by (auto simp: filter_empty_conv)
  then have "page_rows d uid \<ge> 1" by (simp add: page_rows_def Suc_le_eq)
  then show ?thesis using ensurePage_existing[OF Some, of e uname] by auto
next
  case None
  with assms have usr: "uid \<in> user_id ` set (users d)"
    and "\<not> (\<forall>m. slug_taken (pages d) (candidate (nanoid6 e) (uniqueSlug uname) m))"
    by blast+
  then have "uniqueSlugEnsure (pages d) (nanoid6 e) uname \<noteq> None"
    using iffD1[OF uniqueSlugEnsure_None_iff, of "pages d" "nanoid6 e" uname] by blast
  then obtain s where s: "uniqueSlugEnsure (pages d) (nanoid6 e) uname = Some s" by blast
  have "page_rows (d\<lparr>pages := pages d @ [new_page e uid uname s]\<rparr>) uid \<ge> 1"
    by (simp add: page_rows_def)
  then show ?thesis using ensurePage_new[OF None s usr] None by auto
qed

lemma insert_session_fresh:
  "token s \<notin> token ` set (sessions d) \<Longrightarrow>
   insert_session d s = Inr (d\<lparr>sessions := sessions d @ [s]\<rparr>)"
  by (simp add: insert_session_def)

lemma insert_session_clash:
  "token s \<in> token ` set (sessions d) \<Longrightarrow> insert_session d s = Inl UniqueViolation"
  by (simp add: insert_session_def)

lemma new_session_fields [simp]:
  "token (new_session e uid) = nanoid32 e" "sess_user_id (new_session e uid) = uid"
  by (simp_all add: new_session_def)

lemma post_login_unknown:
  "get_user_by_name d (login_name req) = None \<Longrightarrow>
   post_login d e req = answer (Render ''login'' (Some ''Invalid login'')) d"
  by (simp add: post_login_def login_name_def Let_def)

lemma post_login_banned:
  "get_user_by_name d (login_name req) = Some usr \<Longrightarrow> banned usr \<Longrightarrow>
   post_login d e req = answer (Render ''login'' (Some ''Banned'')) d"
  by (simp add: post_login_def login_name_def Let_def)

lemma post_login_wrong_password:
  "get_user_by_name d (login_name req) = Some usr \<Longrightarrow> \<not> banned usr \<Longrightarrow>
   \<not> bcrypt_compare e (login_password req) (password_hash usr) \<Longrightarrow>
   post_login d e req = answer (Render ''login'' (Some ''Invalid login'')) d"
  by (simp add: post_login_def login_name_def login_password_def Let_def)

lemma post_login_verified:
  assumes "get_user_by_name d (login_name req) = Some usr" "\<not> banned usr"
    "bcrypt_compare e (login_password req) (password_hash usr)"
  shows "post_login d e req =
     (case ensurePageForUser d e (user_id usr) (username usr) of
        (Diverges, d1) \<Rightarrow> answer NoReturn d1
      | (Throws err, d1) \<Rightarrow> answer (Unhandled err) d1
      | (Returned, d1) \<Rightarrow>
          (case insert_session d1 (new_session e (user_id usr)) of
             Inl err \<Rightarrow> answer (Unhandled err) d1
           | Inr d2 \<Rightarrow> \<lparr>resp = Redirect ''/dashboard'', set_cookie = SetCookie (nanoid32 e),
                         store = d2\<rparr>))"
  using assms
  unfolding post_login_def login_name_def login_password_def Let_def new_session_def
  by simp

lemma post_login_success:
  assumes usr: "get_user_by_name d (login_name req) = Some usr" "\<not> banned usr"
    "bcrypt_compare e (login_password req) (password_hash usr)"
    and pg: "get_page_by_user d (user_id usr) \<noteq> None \<or>
           \<not> slug_taken (pages d) (candidate (nanoid6 e) (uniqueSlug (username usr)) n)"
    and fresh: "nanoid32 e \<notin> token ` set (sessions d)"
  shows "resp (post_login d e req) = Redirect ''/dashboard'' \<and>
         set_cookie (post_login d e req) = SetCookie (nanoid32 e) \<and>
         sessions (store (post_login d e req)) = sessions d @ [new_session e (user_id usr)] \<and>
         users (store (post_login d e req)) = users d \<and>
         invite_keys (store (post_login d e req)) = invite_keys d \<and>
         impersonations (store (post_login d e req)) = impersonations d"
proof -
  have "usr \<in> set (users d)"
    using usr(1) unfolding get_user_by_name_def by (auto dest: find_Some_mem)
  then have "user_id usr \<in> user_id ` set (users d)" by (rule imageI)
  with pg have pg': "get_page_by_user d (user_id usr) \<noteq> None \<or>
           (user_id usr \<in> user_id ` set (users d) \<and>
            \<not> slug_taken (pages d) (candidate (nanoid6 e) (uniqueSlug (username usr)) n))"
    by blast
  from ensurePage_returns[OF pg'] obtain d1 where
    d1: "ensurePageForUser d e (user_id usr) (username usr) = (Returned, d1)"
    and fr: "sessions d1 = sessions d" "users d1 = users d" "invite_keys d1 = invite_keys d"
      "impersonations d1 = impersonations d" by blast
  have ins: "insert_session d1 (new_session e (user_id usr)) =
           Inr (d1\<lparr>sessions := sessions d1 @ [new_session e (user_id usr)]\<rparr>)"
    by (rule insert_session_fresh) (simp add: fr fresh)
  show ?thesis
    unfolding post_login_verified[OF usr] d1 using ins fr by simp
qed

subsection \<open>Impersonation\<close>

lemma new_impersonation_fields [simp]:
  "imp_token (new_impersonation e a) = nanoid32 e" "admin_user_id (new_impersonation e a) = a"
  by (simp_all add: new_impersonation_def)

lemma find_append_old:
  "find P xs = Some x \<Longrightarrow> find P (xs @ ys) = Some x"
  by (induction xs) (auto split: if_splits)

lemma find_append_none:
  "find P xs = None \<Longrightarrow> find P (xs @ ys) = find P ys"
  by (induction xs) (auto split: if_splits)

lemma filter_drop_new:
  "k \<notin> f ` set xs \<Longrightarrow> f x = k \<Longrightarrow> filter (\<lambda>y. f y \<noteq> k) (xs @ [x]) = xs"
  by (induction xs) auto

lemma getUser_token_known:
  "getUserFromCookie d (Some t) = Some a \<Longrightarrow> t \<in> token ` set (sessions d) \<and> t \<noteq> []"
  by (auto simp: getUserFromCookie_def get_session_def split: if_splits option.splits
           dest!: find_Some_mem)

lemma find_key_self:
  assumes "find (\<lambda>y. f y = k) xs = Some x"
  shows "find (\<lambda>y. f y = f x) xs = Some x"
proof -
  from find_Some_mem[OF assms] have "f x = k" by simp
  with assms show ?thesis by simp
qed

lemma getUser_id:
  "getUserFromCookie d c = Some a \<Longrightarrow> get_user_by_id d (user_id a) = Some a"
  by (auto simp: getUserFromCookie_def get_user_by_id_def split: if_splits option.splits
           dest: find_key_self)

lemma getUser_cookie: "getUserFromCookie d c = Some a \<Longrightarrow> \<exists>t. c = Some t"
  by (cases c) (simp_all add: getUserFromCookie_def)

lemma getUser_more_sessions:
  assumes "getUserFromCookie d c = Some a" and "users d1 = users d"
    and "sessions d1 = sessions d @ ss"
  shows "getUserFromCookie d1 c = Some a"
proof -
  from assms(1) obtain t s where c: "c = Some t" "t \<noteq> []"
    and s: "find (\<lambda>s. token s = t) (sessions d) = Some s"
    and u: "get_user_by_id d (sess_user_id s) = Some a"
    by (auto simp: getUserFromCookie_def get_session_def split: if_splits option.splits)
  have "find (\<lambda>s. token s = t) (sessions d1) = Some s"
    unfolding assms(3) using s by (rule find_append_old)
  then show ?thesis using c u
    by (simp add: getUserFromCookie_def get_session_def get_user_by_id_def assms(2))
qed

lemma getUser_new_session:
  assumes "t \<noteq> []" "t \<notin> token ` set (sessions d)" "token s = t"
    and "sessions d1 = sessions d @ [s]" "users d1 = users d"
  shows "getUserFromCookie d1 (Some t) = get_user_by_id d (sess_user_id s)"
proof -
  have "find (\<lambda>s. token s = t) (sessions d1) = Some s"
    unfolding assms(4) using find_append_new[OF assms(2,3)] .
  then show ?thesis using assms(1)
    by (simp add: getUserFromCookie_def get_session_def get_user_by_id_def assms(5))
qed

lemma post_impersonate_admin:
  assumes admin: "getUserFromCookie d (cookie req) = Some a" "user_id a = 1" "\<not> banned a"
    and target: "param_id req = Some i" "i \<noteq> 0" "get_user_by_id d i = Some u"
    and fresh: "nanoid32 e \<notin> token ` set (sessions d)"
      "nanoid32 e \<notin> imp_token ` set (impersonations d)"
  shows "post_impersonate d e req =
           \<lparr>resp = Redirect ''/dashboard'', set_cookie = SetCookie (nanoid32 e),
            store = d\<lparr>sessions := sessions d @ [new_session e i],
                      impersonations := impersonations d @ [new_impersonation e 1]\<rparr>\<rparr>"
  using assms
  unfolding post_impersonate_def new_session_def new_impersonation_def
  by (simp add: with_admin_pass id_falsy_def insert_session_def insert_impersonation_def)

lemma post_return_borrowed:
  assumes usr: "getUserFromCookie d (cookie req) = Some u" "\<not> banned u"
    and c: "cookie req = Some t"
    and row: "get_impersonation d t = Some row"
  shows "post_return d e req =
     (case insert_session (delete_impersonation (delete_session d t) t)
             (new_session e (admin_user_id row)) of
        Inl err \<Rightarrow> answer (Unhandled err) (delete_impersonation (delete_session d t) t)
      | Inr d3 \<Rightarrow> \<lparr>resp = Redirect ''/admin/users'', set_cookie = SetCookie (nanoid32 e),
                    store = d3\<rparr>)"
proof -
  from usr(1) c have "t \<noteq> []" by (auto dest: getUser_token_known)
  then show ?thesis
    using usr c row unfolding post_return_def new_session_def Let_def
    by (simp add: with_auth_pass)
qed


lemma impersonated_store:
  assumes fresh: "nanoid32 e \<noteq> []" "nanoid32 e \<notin> token ` set (sessions d)"
      "nanoid32 e \<notin> imp_token ` set (impersonations d)"
    and d1: "d1 = d\<lparr>sessions := sessions d @ [new_session e i],
                      impersonations := impersonations d @ [new_impersonation e 1]\<rparr>"
  shows "get_impersonation d1 (nanoid32 e) = Some (new_impersonation e 1)"
    and "delete_impersonation (delete_session d1 (nanoid32 e)) (nanoid32 e) = d"
    and "getUserFromCookie d1 (Some (nanoid32 e)) = get_user_by_id d i"
proof -
  show "get_impersonation d1 (nanoid32 e) = Some (new_impersonation e 1)"
    unfolding get_impersonation_def d1 using find_append_new[OF fresh(3), of "new_impersonation e 1"]
    by simp
  have "filter (\<lambda>s. token s \<noteq> nanoid32 e) (sessions d @ [new_session e i]) = sessions d"
    by (rule filter_drop_new[OF fresh(2)]) simp
  moreover have "filter (\<lambda>r. imp_token r \<noteq> nanoid32 e)
                   (impersonations d @ [new_impersonation e 1]) = impersonations d"
    by (rule filter_drop_new[OF fresh(3)]) simp
  ultimately show "delete_impersonation (delete_session d1 (nanoid32 e)) (nanoid32 e) = d"
    unfolding d1 delete_impersonation_def delete_session_def by simp
  have "getUserFromCookie d1 (Some (nanoid32 e)) = get_user_by_id d (sess_user_id (new_session e i))"
    by (rule getUser_new_session[OF fresh(1,2)]) (simp_all add: d1)
  then show "getUserFromCookie d1 (Some (nanoid32 e)) = get_user_by_id d i" by simp
qed

subsection \<open>Signup and login: what they write\<close>

lemma imp_inv_iff: "imp_inv d = (imp_token ` set (impersonations d) \<subseteq> token ` set (sessions d))"
  by (auto simp: imp_inv_def list_all_iff)

lemma paired_change_refl: "paired_change d d"
  by (simp add: paired_change_def)

lemma paired_change_same:
  "impersonations d' = impersonations d \<Longrightarrow> sessions d' = sessions d \<Longrightarrow> paired_change d d'"
  by (simp add: paired_change_def)

lemma paired_change_grow:
  "impersonations d' = impersonations d \<Longrightarrow> set (sessions d) \<subseteq> set (sessions d') \<Longrightarrow>
   paired_change d d'"
  by (simp add: paired_change_def)

lemma paired_change_inv:
  assumes pc: "paired_change d d'" and inv: "imp_inv d"
  shows "imp_inv d'"
proof -
  from pc consider
    (grow) "impersonations d' = impersonations d" "set (sessions d) \<subseteq> set (sessions d')"
  | (del) t where "impersonations d' = filter (\<lambda>r. imp_token r \<noteq> t) (impersonations d)"
      "set (filter (\<lambda>s. token s \<noteq> t) (sessions d)) \<subseteq> set (sessions d')"
  | (add) r where "impersonations d' = impersonations d @ [r]"
      "set (sessions d) \<subseteq> set (sessions d')" "imp_token r \<in> token ` set (sessions d')"
    unfolding paired_change_def by blast
  then show ?thesis
  proof cases
    case grow
    have "token ` set (sessions d) \<subseteq> token ` set (sessions d')"
      using grow(2) by (rule image_mono)
    then show ?thesis using inv grow(1) unfolding imp_inv_iff by auto
  next
    case del
    show ?thesis unfolding imp_inv_iff
    proof
      fix k assume "k \<in> imp_token ` set (impersonations d')"
      then obtain r where r: "r \<in> set (impersonations d)" "imp_token r \<noteq> t" "k = imp_token r"
        unfolding del(1) by auto
      with inv obtain s where s: "s \<in> set (sessions d)" "token s = imp_token r"
        unfolding imp_inv_iff by auto
      with r have "s \<in> set (filter (\<lambda>s. token s \<noteq> t) (sessions d))" by simp
      with del(2) have "s \<in> set (sessions d')" by blast
      with s r show "k \<in> token ` set (sessions d')" by force
    qed
  next
    case add
    have "token ` set (sessions d) \<subseteq> token ` set (sessions d')"
      using add(2) by (rule image_mono)
    then show ?thesis using inv add(1,3) unfolding imp_inv_iff by auto
  qed
qed

lemma insert_user_tables:
  assumes "insert_user d n h ts = Inr (d1, i)"
  shows "sessions d1 = sessions d \<and> impersonations d1 = impersonations d \<and>
         pages d1 = pages d \<and> invite_keys d1 = invite_keys d \<and> i = next_user_id d \<and>
         users d1 = users d @ [\<lparr>user_id = next_user_id d, username = n, password_hash = h,
                        user_created_at = ts, banned = False, ban_reason = []\<rparr>] \<and>
         n \<notin> username ` set (users d)"
  using assms by (auto simp: insert_user_def Let_def split: if_splits)

lemma insert_user_fails:
  assumes "insert_user d n h ts = Inl err"
  shows "err = UniqueViolation \<and> n \<in> username ` set (users d)"
  using assms by (auto simp: insert_user_def Let_def split: if_splits)

lemma update_invite_tables [simp]:
  "sessions (update_invite_used d i ts k) = sessions d"
  "impersonations (update_invite_used d i ts k) = impersonations d"
  "pages (update_invite_used d i ts k) = pages d"
  "users (update_invite_used d i ts k) = users d"
  by (simp_all add: update_invite_used_def)

lemma insert_session_tables:
  assumes "insert_session d s = Inr d1"
  shows "sessions d1 = sessions d @ [s] \<and> impersonations d1 = impersonations d \<and>
         pages d1 = pages d \<and> invite_keys d1 = invite_keys d \<and> users d1 = users d \<and>
         token s \<notin> token ` set (sessions d)"
  using assms by (auto simp: insert_session_def split: if_splits)

lemma signup_catch_store [simp]: "store (signup_catch err d) = d"
  by (simp add: signup_catch_def)

lemma signup_catch_render: "\<exists>msg. signup_catch err d = answer (Render ''signup'' (Some msg)) d"
  unfolding signup_catch_def by (cases "err = UniqueViolation") (simp_all del: ex_simps, blast+)

lemma post_signup_valid:
  assumes "signup_name req = Some uname" "6 \<le> length (signup_password req)"
    "get_invite d (signup_invite req) = Some row" "\<not> used_by_truthy row"
  shows "post_signup d e req =
     (case insert_user d uname (bcrypt_hash e (signup_password req)) (now_user e) of
        Inl err \<Rightarrow> signup_catch err d
      | Inr (d1, userId) \<Rightarrow>
          (case ensurePageForUser (update_invite_used d1 userId (now_invite e) (signup_invite req))
                  e userId uname of
             (Diverges, d3) \<Rightarrow> answer NoReturn d3
           | (Throws err, d3) \<Rightarrow> signup_catch err d3
           | (Returned, d3) \<Rightarrow>
               (case insert_session d3 (new_session e userId) of
                  Inl err \<Rightarrow> signup_catch err d3
                | Inr d4 \<Rightarrow> \<lparr>resp = Redirect ''/dashboard'', set_cookie = SetCookie (nanoid32 e),
                              store = d4\<rparr>)))"
  using assms
  unfolding post_signup_def signup_name_def signup_password_def signup_invite_def Let_def
    new_session_def
  by simp

lemma post_signup_rejected:
  assumes "signup_name req = None \<or> length (signup_password req) < 6 \<or>
           get_invite d (signup_invite req) = None \<or>
           (\<exists>row. get_invite d (signup_invite req) = Some row \<and> used_by_truthy row)"
  shows "\<exists>msg. post_signup d e req = answer (Render ''signup'' (Some msg)) d"
  using assms
  unfolding post_signup_def signup_name_def signup_password_def signup_invite_def Let_def
  by (auto split: option.splits intro: exI)

lemma post_signup_spent:
  assumes "invite_spent d (signup_invite req)" "signup_name req \<noteq> None"
    "6 \<le> length (signup_password req)"
  shows "post_signup d e req = answer (Render ''signup'' (Some ''Invalid invite key'')) d"
  using assms
  unfolding post_signup_def signup_name_def signup_password_def signup_invite_def Let_def
    invite_spent_def
  by (auto split: option.splits)


lemma post_signup_cases:
  "(\<exists>msg. post_signup d e req = answer (Render ''signup'' (Some msg)) d) \<or>
   (\<exists>uname d1 d3 f r.
      signup_name req = Some uname \<and> 6 \<le> length (signup_password req) \<and>
      insert_user d uname (bcrypt_hash e (signup_password req)) (now_user e) =
        Inr (d1, next_user_id d) \<and>
      ensurePageForUser
        (update_invite_used d1 (next_user_id d) (now_invite e) (signup_invite req))
        e (next_user_id d) uname = (f, d3) \<and>
      post_signup d e req = r \<and>
      (store r = d3 \<or>
       (f = Returned \<and> insert_session d3 (new_session e (next_user_id d)) = Inr (store r) \<and>
        resp r = Redirect ''/dashboard'' \<and> set_cookie r = SetCookie (nanoid32 e))))"
proof (cases "signup_name req = None \<or> length (signup_password req) < 6 \<or>
           get_invite d (signup_invite req) = None \<or>
           (\<exists>row. get_invite d (signup_invite req) = Some row \<and> used_by_truthy row)")
  case True
  then show ?thesis using post_signup_rejected by blast
next
  case False
  then obtain uname row where v: "signup_name req = Some uname" "6 \<le> length (signup_password req)"
    "get_invite d (signup_invite req) = Some row" "\<not> used_by_truthy row"
    by (cases "signup_name req"; cases "get_invite d (signup_invite req)") auto
  note unf = post_signup_valid[OF v, of e]
  show ?thesis
  proof (cases "insert_user d uname (bcrypt_hash e (signup_password req)) (now_user e)")
    case (Inl err)
    then have "post_signup d e req = signup_catch err d" unfolding unf by simp
    then show ?thesis using signup_catch_render[of err d] by auto
  next
    case (Inr p)
    obtain d1 i where p: "p = (d1, i)" by (cases p)
    from insert_user_tables[OF Inr[unfolded p]] have i: "i = next_user_id d" by simp
    let ?d2 = "update_invite_used d1 (next_user_id d) (now_invite e) (signup_invite req)"
    obtain f d3 where en: "ensurePageForUser ?d2 e (next_user_id d) uname = (f, d3)"
      by (cases "ensurePageForUser ?d2 e (next_user_id d) uname")
    have ins: "insert_user d uname (bcrypt_hash e (signup_password req)) (now_user e) =
        Inr (d1, next_user_id d)" using Inr p i by simp
    have r: "post_signup d e req =
       (case f of Diverges \<Rightarrow> answer NoReturn d3
        | Throws err \<Rightarrow> signup_catch err d3
        | Returned \<Rightarrow>
               (case insert_session d3 (new_session e (next_user_id d)) of
                  Inl err \<Rightarrow> signup_catch err d3
                | Inr d4 \<Rightarrow> \<lparr>resp = Redirect ''/dashboard'', set_cookie = SetCookie (nanoid32 e),
                              store = d4\<rparr>))"
      unfolding unf ins by (simp add: en)
    have "store (post_signup d e req) = d3 \<or>
       (f = Returned \<and> insert_session d3 (new_session e (next_user_id d)) =
            Inr (store (post_signup d e req)) \<and>
        resp (post_signup d e req) = Redirect ''/dashboard'' \<and>
        set_cookie (post_signup d e req) = SetCookie (nanoid32 e))"
      unfolding r by (cases f; cases "insert_session d3 (new_session e (next_user_id d))") simp_all
    then show ?thesis using v(1,2) ins en by blast
  qed
qed

lemma invite_keys_ensurePage:
  "ensurePageForUser d e uid uname = (f, d1) \<Longrightarrow> invite_keys d1 = invite_keys d"
  using ensurePage_frame by blast

lemma signup_tables:
  "impersonations (store (post_signup d e req)) = impersonations d \<and>
   set (sessions d) \<subseteq> set (sessions (store (post_signup d e req))) \<and>
   (invite_keys (store (post_signup d e req)) = invite_keys d \<or>
    invite_keys (store (post_signup d e req)) =
      invite_keys (update_invite_used d (next_user_id d) (now_invite e) (signup_invite req)))"
proof -
  from post_signup_cases[of d e req] consider
    (rej) msg where "post_signup d e req = answer (Render ''signup'' (Some msg)) d"
  | (run) uname d1 d3 f where
      "insert_user d uname (bcrypt_hash e (signup_password req)) (now_user e) =
        Inr (d1, next_user_id d)"
      "ensurePageForUser
        (update_invite_used d1 (next_user_id d) (now_invite e) (signup_invite req))
        e (next_user_id d) uname = (f, d3)"
      "store (post_signup d e req) = d3 \<or>
       insert_session d3 (new_session e (next_user_id d)) = Inr (store (post_signup d e req))"
    by blast
  then show ?thesis
  proof cases
    case rej
    then show ?thesis by simp
  next
    case run
    note t1 = insert_user_tables[OF run(1)]
    note fr = ensurePage_frame[OF run(2)]
    have k1: "invite_keys (update_invite_used d1 (next_user_id d) (now_invite e) (signup_invite req)) =
          invite_keys (update_invite_used d (next_user_id d) (now_invite e) (signup_invite req))"
      using t1 by (simp add: update_invite_used_def)
    have d3: "impersonations d3 = impersonations d" "sessions d3 = sessions d"
      "invite_keys d3 = invite_keys
          (update_invite_used d (next_user_id d) (now_invite e) (signup_invite req))"
      using fr t1 k1 by simp_all
    from run(3) show ?thesis
    proof
      assume "store (post_signup d e req) = d3"
      then show ?thesis using d3 by simp
    next
      assume "insert_session d3 (new_session e (next_user_id d)) = Inr (store (post_signup d e req))"
      from insert_session_tables[OF this] show ?thesis using d3 by auto
    qed
  qed
qed

lemma login_cases:
  "store (post_login d e req) = d \<or>
   (\<exists>uid uname f d1. ensurePageForUser d e uid uname = (f, d1) \<and>
      (store (post_login d e req) = d1 \<or>
       insert_session d1 (new_session e uid) = Inr (store (post_login d e req))))"
proof (cases "get_user_by_name d (login_name req)")
  case None
  then show ?thesis by (simp add: post_login_unknown)
next
  case (Some usr)
  show ?thesis
  proof (cases "banned usr \<or> \<not> bcrypt_compare e (login_password req) (password_hash usr)")
    case True
    then show ?thesis using post_login_banned[OF Some] post_login_wrong_password[OF Some]
      by (cases "banned usr") simp_all
  next
    case False
    then have v: "\<not> banned usr" "bcrypt_compare e (login_password req) (password_hash usr)"
      by simp_all
    obtain f d1 where en: "ensurePageForUser d e (user_id usr) (username usr) = (f, d1)"
      by (cases "ensurePageForUser d e (user_id usr) (username usr)")
    have st: "store (post_login d e req) = d1 \<or>
       insert_session d1 (new_session e (user_id usr)) = Inr (store (post_login d e req))"
      unfolding post_login_verified[OF Some v] en
      by (cases f; cases "insert_session d1 (new_session e (user_id usr))") simp_all
    show ?thesis using en st by blast
  qed
qed

lemma login_tables:
  "impersonations (store (post_login d e req)) = impersonations d \<and>
   set (sessions d) \<subseteq> set (sessions (store (post_login d e req))) \<and>
   invite_keys (store (post_login d e req)) = invite_keys d"
proof -
  from login_cases[of d e req] consider "store (post_login d e req) = d"
    | uid uname f d1 where "ensurePageForUser d e uid uname = (f, d1)"
      "store (post_login d e req) = d1 \<or>
       insert_session d1 (new_session e uid) = Inr (store (post_login d e req))"
    by blast
  then show ?thesis
  proof cases
    case 1
    then show ?thesis by simp
  next
    case 2
    note fr = ensurePage_frame[OF 2(1)]
    from 2(2) show ?thesis
    proof
      assume "store (post_login d e req) = d1"
      then show ?thesis using fr by simp
    next
      assume "insert_session d1 (new_session e uid) = Inr (store (post_login d e req))"
      from insert_session_tables[OF this] show ?thesis using fr by auto
    qed
  qed
qed

subsection \<open>What each handler writes\<close>

lemma keeps_refl [simp]: "keeps_auth_tables d d"
  by (simp add: keeps_auth_tables_def)

lemma with_auth_store:
  assumes "P d" and "\<And>usr. P (store (k usr))"
  shows "P (store (with_auth d req k))"
  using assms
  by (auto simp: with_auth_def Let_def split: option.splits)

lemma with_admin_store:
  assumes "P d" and "\<And>usr. P (store (k usr))"
  shows "P (store (with_admin d req k))"
  unfolding with_admin_def
  by (rule with_auth_store[where P = P, OF assms(1)]) (auto simp: assms split: option.splits)

lemma render_dashboard_store [simp]: "store (render_dashboard d req usr err ok) = d"
  by (simp add: render_dashboard_def split: option.splits)

lemma get_root_store [simp]: "store (get_root d req) = d"
  by (simp add: get_root_def split: option.splits)

lemma get_slug_store [simp]: "store (get_slug d req) = d"
  by (simp add: get_slug_def Let_def split: option.splits)

lemma ensurePage_keeps:
  "ensurePageForUser d e uid uname = (f, d1) \<Longrightarrow> keeps_auth_tables d d1"
  using ensurePage_frame[of d e uid uname f d1] by (simp add: keeps_auth_tables_def)

lemma get_dashboard_keeps: "keeps_auth_tables d (store (get_dashboard d e req))"
  unfolding get_dashboard_def
proof (rule with_auth_store[where P = "keeps_auth_tables d"])
  show "keeps_auth_tables d d" by simp
next
  fix usr :: user
  obtain f d1 where en: "ensurePageForUser d e (user_id usr) (username usr) = (f, d1)"
    by (cases "ensurePageForUser d e (user_id usr) (username usr)")
  show "keeps_auth_tables d (store (case ensurePageForUser d e (user_id usr) (username usr) of
                 (Diverges, d1) \<Rightarrow> answer NoReturn d1
               | (Throws err, d1) \<Rightarrow> answer (Unhandled err) d1
               | (Returned, d1) \<Rightarrow> render_dashboard d1 req usr None None))"
    unfolding en using ensurePage_keeps[OF en] by (cases f) simp_all
qed

lemma update_page_keeps:
  "update_page d uid g s = Inr d1 \<Longrightarrow> keeps_auth_tables d d1"
  by (auto simp: update_page_def keeps_auth_tables_def split: if_splits)

lemma savePage_keeps:
  assumes "savePageForUser d e uid req = (x, d1)"
  shows "keeps_auth_tables d d1"
proof (cases "get_page_by_user d uid")
  case None
  with assms show ?thesis by (simp add: savePage_unfold)
next
  case (Some pg)
  let ?slg = "normalizeSlug (or_str (form req ''slug'') (slug pg))"
  show ?thesis
  proof (cases "update_page d uid (edited e req ?slg) ?slg")
    case (Inl err)
    with assms Some show ?thesis
      by (auto simp: savePage_unfold Let_def split: if_splits)
  next
    case (Inr d2)
    with assms Some update_page_keeps[OF Inr] show ?thesis
      by (auto simp: savePage_unfold Let_def split: if_splits)
  qed
qed

lemma post_dashboard_keeps: "keeps_auth_tables d (store (post_dashboard d e req))"
  unfolding post_dashboard_def
proof (rule with_auth_store[where P = "keeps_auth_tables d"])
  show "keeps_auth_tables d d" by simp
next
  fix usr :: user
  obtain x d1 where sv: "savePageForUser d e (user_id usr) req = (x, d1)"
    by (cases "savePageForUser d e (user_id usr) req")
  show "keeps_auth_tables d (store (case savePageForUser d e (user_id usr) req of
                 (Inl err, d1) \<Rightarrow> answer (Unhandled err) d1
               | (Inr result, d1) \<Rightarrow>
                   render_dashboard d1 req usr result
                     (case result of None \<Rightarrow> Some ''Saved'' | Some err \<Rightarrow> None)))"
    unfolding sv using savePage_keeps[OF sv] by (cases x) simp_all
qed

lemma post_ban_keeps: "keeps_auth_tables d (store (post_ban d req))"
  unfolding post_ban_def
  by (rule with_admin_store[where P = "keeps_auth_tables d"])
     (auto simp: keeps_auth_tables_def split: option.splits)

lemma post_unban_keeps: "keeps_auth_tables d (store (post_unban d req))"
  unfolding post_unban_def
  by (rule with_admin_store[where P = "keeps_auth_tables d"])
     (auto simp: keeps_auth_tables_def split: option.splits)

lemma post_admin_keys_tables:
  "sessions (store (post_admin_keys d e req)) = sessions d \<and>
   impersonations (store (post_admin_keys d e req)) = impersonations d \<and>
   (invite_keys (store (post_admin_keys d e req)) = invite_keys d \<or>
    (\<exists>r. invite_keys (store (post_admin_keys d e req)) = invite_keys d @ [r] \<and>
         key r \<notin> key ` set (invite_keys d)))"
  unfolding post_admin_keys_def
  by (rule with_admin_store[where P = "\<lambda>x. sessions x = sessions d \<and>
          impersonations x = impersonations d \<and>
          (invite_keys x = invite_keys d \<or>
           (\<exists>r. invite_keys x = invite_keys d @ [r] \<and> key r \<notin> key ` set (invite_keys d)))"])
     (auto simp: insert_invite_def split: sum.splits if_splits)

lemma post_logout_tables:
  "invite_keys (store (post_logout d req)) = invite_keys d \<and>
   (store (post_logout d req) = d \<or>
    (\<exists>t. sessions (store (post_logout d req)) = filter (\<lambda>s. token s \<noteq> t) (sessions d) \<and>
         impersonations (store (post_logout d req)) =
           filter (\<lambda>r. imp_token r \<noteq> t) (impersonations d)))"
  by (auto simp: post_logout_def Let_def delete_session_def delete_impersonation_def
           split: option.splits)

lemma insert_impersonation_tables:
  assumes "insert_impersonation d r = Inr d1"
  shows "impersonations d1 = impersonations d @ [r] \<and> sessions d1 = sessions d \<and>
         invite_keys d1 = invite_keys d"
  using assms by (auto simp: insert_impersonation_def split: if_splits)

lemma post_impersonate_tables:
  "invite_keys (store (post_impersonate d e req)) = invite_keys d \<and>
   paired_change d (store (post_impersonate d e req))"
  unfolding post_impersonate_def
proof (rule with_admin_store[where P = "\<lambda>x. invite_keys x = invite_keys d \<and> paired_change d x"])
  show "invite_keys d = invite_keys d \<and> paired_change d d" by (simp add: paired_change_refl)
next
  fix usr :: user
  let ?k = "case param_id req of
                 None \<Rightarrow> answer (Status 400 ''no'') d
               | Some i \<Rightarrow>
                   if id_falsy (Some i) then answer (Status 400 ''no'') d
                   else (case get_user_by_id d i of
                           None \<Rightarrow> answer (Status 404 ''not found'') d
                         | Some target \<Rightarrow>
                             (case insert_session d
                                     \<lparr>token = nanoid32 e, sess_user_id = i,
                                      sess_created_at = now_session e\<rparr> of
                                Inl err \<Rightarrow> answer (Unhandled err) d
                              | Inr d1 \<Rightarrow>
                                  (case insert_impersonation d1
                                          \<lparr>imp_token = nanoid32 e, admin_user_id = user_id usr,
                                           imp_created_at = now_imp e\<rparr> of
                                     Inl err \<Rightarrow> answer (Unhandled err) d1
                                   | Inr d2 \<Rightarrow>
                                       \<lparr>resp = Redirect ''/dashboard'',
                                        set_cookie = SetCookie (nanoid32 e), store = d2\<rparr>)))"
  show "invite_keys (store ?k) = invite_keys d \<and> paired_change d (store ?k)"
  proof (cases "param_id req")
    case None
    then show ?thesis by (simp add: paired_change_refl)
  next
    case (Some i)
    show ?thesis
    proof (cases "id_falsy (Some i) \<or> get_user_by_id d i = None")
      case True
      then show ?thesis using Some by (auto simp: paired_change_refl)
    next
      case False
      then obtain target where tg: "\<not> id_falsy (Some i)" "get_user_by_id d i = Some target"
        by auto
      let ?s = "\<lparr>token = nanoid32 e, sess_user_id = i, sess_created_at = now_session e\<rparr>"
      let ?r = "\<lparr>imp_token = nanoid32 e, admin_user_id = user_id usr, imp_created_at = now_imp e\<rparr>"
      show ?thesis
      proof (cases "insert_session d ?s")
        case (Inl err)
        then show ?thesis using Some tg by (simp add: paired_change_refl)
      next
        case (Inr d1)
        note t1 = insert_session_tables[OF Inr]
        show ?thesis
        proof (cases "insert_impersonation d1 ?r")
          case (Inl err)
          have "paired_change d d1" by (rule paired_change_grow) (use t1 in auto)
          then show ?thesis using Some tg Inr Inl t1 by simp
        next
          case r: (Inr d2)
          note t2 = insert_impersonation_tables[OF r]
          have "paired_change d d2"
            unfolding paired_change_def using t1 t2 by (intro disjI2) auto
          then show ?thesis using Some tg Inr r t1 t2 by simp
        qed
      qed
    qed
  qed
qed

lemma post_return_tables:
  "invite_keys (store (post_return d e req)) = invite_keys d \<and>
   paired_change d (store (post_return d e req))"
  unfolding post_return_def
proof (rule with_auth_store[where P = "\<lambda>x. invite_keys x = invite_keys d \<and> paired_change d x"])
  show "invite_keys d = invite_keys d \<and> paired_change d d" by (simp add: paired_change_refl)
next
  fix usr :: user
  let ?k = "case cookie req of
                 None \<Rightarrow> answer (Redirect ''/dashboard'') d
               | Some t \<Rightarrow>
                   if t = [] then answer (Redirect ''/dashboard'') d
                   else (case get_impersonation d t of
                           None \<Rightarrow> answer (Redirect ''/dashboard'') d
                         | Some row \<Rightarrow>
                             (let d1 = delete_session d t;
                                  d2 = delete_impersonation d1 t
                              in case insert_session d2
                                        \<lparr>token = nanoid32 e, sess_user_id = admin_user_id row,
                                         sess_created_at = now_session e\<rparr> of
                                   Inl err \<Rightarrow> answer (Unhandled err) d2
                                 | Inr d3 \<Rightarrow>
                                     \<lparr>resp = Redirect ''/admin/users'',
                                      set_cookie = SetCookie (nanoid32 e), store = d3\<rparr>))"
  show "invite_keys (store ?k) = invite_keys d \<and> paired_change d (store ?k)"
  proof (cases "\<exists>t row. cookie req = Some t \<and> t \<noteq> [] \<and> get_impersonation d t = Some row")
    case False
    then have "?k = answer (Redirect ''/dashboard'') d"
      by (auto split: option.splits)
    then show ?thesis by (simp add: paired_change_refl)
  next
    case True
    then obtain t row where c: "cookie req = Some t" "t \<noteq> []" "get_impersonation d t = Some row"
      by blast
    let ?d2 = "delete_impersonation (delete_session d t) t"
    let ?s = "\<lparr>token = nanoid32 e, sess_user_id = admin_user_id row,
               sess_created_at = now_session e\<rparr>"
    have d2: "sessions ?d2 = filter (\<lambda>s. token s \<noteq> t) (sessions d)"
      "impersonations ?d2 = filter (\<lambda>r. imp_token r \<noteq> t) (impersonations d)"
      "invite_keys ?d2 = invite_keys d"
      by (simp_all add: delete_impersonation_def delete_session_def)
    show ?thesis
    proof (cases "insert_session ?d2 ?s")
      case (Inl err)
      have "paired_change d ?d2" unfolding paired_change_def using d2 by auto
      then show ?thesis using c Inl d2 by (simp add: Let_def)
    next
      case (Inr d3)
      note t3 = insert_session_tables[OF Inr]
      have "paired_change d d3" unfolding paired_change_def using d2 t3 by auto
      then show ?thesis using c Inr d2 t3 by (simp add: Let_def)
    qed
  qed
qed

subsection \<open>Invariants along a run\<close>

lemma keeps_paired: "keeps_auth_tables d d' \<Longrightarrow> paired_change d d'"
  by (simp add: keeps_auth_tables_def paired_change_def)

lemma answer_with_admin_store [simp]: "store (with_admin d req (\<lambda>usr. answer r d)) = d"
  by (rule with_admin_store[where P = "\<lambda>x. x = d"]) simp_all

lemma post_logout_paired: "paired_change d (store (post_logout d req))"
  using post_logout_tables[of d req] unfolding paired_change_def by auto

lemma handle_paired: "paired_change d (store (handle d e req))"
proof (cases "route req")
  case PostSignup
  then show ?thesis using signup_tables[of d e req]
    by (simp add: handle_def paired_change_grow)
next
  case PostLogin
  then show ?thesis using login_tables[of d e req]
    by (simp add: handle_def paired_change_grow)
next
  case PostLogout
  then show ?thesis by (simp add: handle_def post_logout_paired)
next
  case GetDashboard
  then show ?thesis by (simp add: handle_def keeps_paired get_dashboard_keeps)
next
  case PostDashboard
  then show ?thesis by (simp add: handle_def keeps_paired post_dashboard_keeps)
next
  case PostAdminKeys
  then show ?thesis using post_admin_keys_tables[of d e req]
    by (simp add: handle_def paired_change_same)
next
  case PostBan
  then show ?thesis by (simp add: handle_def keeps_paired post_ban_keeps)
next
  case PostUnban
  then show ?thesis by (simp add: handle_def keeps_paired post_unban_keeps)
next
  case PostImpersonate
  then show ?thesis by (simp add: handle_def post_impersonate_tables)
next
  case PostReturn
  then show ?thesis by (simp add: handle_def post_return_tables)
qed (simp_all add: handle_def paired_change_refl)

lemma handle_imp_inv: "imp_inv d \<Longrightarrow> imp_inv (store (handle d e req))"
  using handle_paired by (rule paired_change_inv)

lemma run_requests_imp_inv: "imp_inv d \<Longrightarrow> imp_inv (run_requests d rs)"
proof (induction rs arbitrary: d)
  case Nil
  then show ?case by simp
next
  case (Cons r rs)
  obtain e req where r: "r = (e, req)" by (cases r)
  show ?case unfolding r run_requests.simps
    by (rule Cons.IH) (rule handle_imp_inv[OF Cons.prems])
qed

lemma next_user_id_pos: "next_user_id d \<ge> 1"
proof -
  have "foldr max xs (0::int) \<ge> 0" for xs by (induction xs) auto
  then show ?thesis by (simp add: next_user_id_def)
qed

lemma invite_spent_keys:
  "invite_keys d' = invite_keys d \<Longrightarrow> invite_spent d' k = invite_spent d k"
  by (simp add: invite_spent_def get_invite_def)

lemma find_map_key:
  "(\<And>x. f (g x) = f x) \<Longrightarrow> find (\<lambda>y. f y = k) (map g xs) = map_option g (find (\<lambda>y. f y = k) xs)"
  by (rule find_map_same) simp

lemma invite_spent_update:
  assumes "uid \<noteq> 0"
  shows "invite_spent (update_invite_used d uid ts k') k =
           (k \<in> key ` set (invite_keys d) \<and> (k = k' \<or> invite_spent d k))"
proof -
  let ?g = "\<lambda>r. if key r = k' then r\<lparr>used_by := Some uid, used_at := Some ts\<rparr> else r"
  have "get_invite (update_invite_used d uid ts k') k = map_option ?g (get_invite d k)"
    unfolding get_invite_def update_invite_used_def by (simp add: find_map_key)
  moreover have "(get_invite d k = None) = (k \<notin> key ` set (invite_keys d))"
    unfolding get_invite_def by (rule find_none_key)
  moreover have "get_invite d k = Some r \<Longrightarrow> key r = k" for r
    unfolding get_invite_def by (auto dest: find_Some_mem)
  ultimately show ?thesis using assms
    by (cases "get_invite d k") (auto simp: invite_spent_def used_by_truthy_def)
qed

lemma invite_spent_append:
  "invite_spent d k \<Longrightarrow> invite_keys d' = invite_keys d @ [r] \<Longrightarrow> invite_spent d' k"
  by (auto simp: invite_spent_def get_invite_def find_append_old split: option.splits)

lemma invite_spent_known: "invite_spent d k \<Longrightarrow> k \<in> key ` set (invite_keys d)"
  by (auto simp: invite_spent_def get_invite_def split: option.splits dest: find_Some_mem)

lemma handle_invite_keys:
  "invite_keys (store (handle d e req)) = invite_keys d \<or>
   invite_keys (store (handle d e req)) =
     invite_keys (update_invite_used d (next_user_id d) (now_invite e) (signup_invite req)) \<or>
   (\<exists>r. invite_keys (store (handle d e req)) = invite_keys d @ [r])"
proof (cases "route req")
  case PostSignup
  then show ?thesis using signup_tables[of d e req] by (auto simp: handle_def)
next
  case PostLogin
  then show ?thesis using login_tables[of d e req] by (simp add: handle_def)
next
  case PostLogout
  then show ?thesis using post_logout_tables[of d req] by (simp add: handle_def)
next
  case GetDashboard
  then show ?thesis using get_dashboard_keeps[of d e req]
    by (simp add: handle_def keeps_auth_tables_def)
next
  case PostDashboard
  then show ?thesis using post_dashboard_keeps[of d e req]
    by (simp add: handle_def keeps_auth_tables_def)
next
  case PostAdminKeys
  then show ?thesis using post_admin_keys_tables[of d e req] by (auto simp: handle_def)
next
  case PostBan
  then show ?thesis using post_ban_keeps[of d req] by (simp add: handle_def keeps_auth_tables_def)
next
  case PostUnban
  then show ?thesis using post_unban_keeps[of d req] by (simp add: handle_def keeps_auth_tables_def)
next
  case PostImpersonate
  then show ?thesis by (simp add: handle_def post_impersonate_tables)
next
  case PostReturn
  then show ?thesis by (simp add: handle_def post_return_tables)
qed (simp_all add: handle_def)

lemma handle_invite_spent:
  assumes "invite_spent d k"
  shows "invite_spent (store (handle d e req)) k"
proof -
  let ?d' = "store (handle d e req)"
  let ?u = "update_invite_used d (next_user_id d) (now_invite e) (signup_invite req)"
  have nz: "next_user_id d \<noteq> 0" using next_user_id_pos[of d] by simp
  have kn: "k \<in> key ` set (invite_keys d)" using assms by (rule invite_spent_known)
  have up: "invite_spent ?u k"
    by (rule iffD2[OF invite_spent_update[OF nz]]) (intro conjI disjI2 kn assms)
  consider (same) "invite_keys ?d' = invite_keys d"
    | (upd) "invite_keys ?d' = invite_keys ?u"
    | (app) r where "invite_keys ?d' = invite_keys d @ [r]"
    using handle_invite_keys[of d e req] by blast
  then show ?thesis
  proof cases
    case same
    show ?thesis by (rule iffD2[OF invite_spent_keys[OF same]]) (rule assms)
  next
    case upd
    show ?thesis by (rule iffD2[OF invite_spent_keys[OF upd]]) (rule up)
  next
    case app
    show ?thesis by (rule invite_spent_append[OF assms app])
  qed
qed

lemma run_requests_invite_spent: "invite_spent d k \<Longrightarrow> invite_spent (run_requests d rs) k"
proof (induction rs arbitrary: d)
  case Nil
  then show ?case by simp
next
  case (Cons r rs)
  obtain e req where r: "r = (e, req)" by (cases r)
  show ?case unfolding r run_requests.simps
    by (rule Cons.IH) (rule handle_invite_spent[OF Cons.prems])
qed

subsection \<open>A successful signup\<close>

lemma foldr_max_ge: "x \<in> set xs \<Longrightarrow> x \<le> foldr max xs (0::int)"
  by (induction xs) auto

lemma next_user_id_fresh: "next_user_id d \<notin> user_id ` set (users d)"
proof
  assume "next_user_id d \<in> user_id ` set (users d)"
  then have "next_user_id d \<in> set (map user_id (users d))" by simp
  from foldr_max_ge[OF this] show False by (simp add: next_user_id_def)
qed

lemma insert_user_fresh:
  "n \<notin> username ` set (users d) \<Longrightarrow>
   insert_user d n h ts =
     Inr (d\<lparr>users := users d @
                [\<lparr>user_id = next_user_id d, username = n, password_hash = h,
                  user_created_at = ts, banned = False, ban_reason = []\<rparr>]\<rparr>, next_user_id d)"
  by (simp add: insert_user_def Let_def)

lemma post_signup_success:
  assumes v: "signup_name req = Some uname" "6 \<le> length (signup_password req)"
      "get_invite d (signup_invite req) = Some row" "used_by row = None"
    and nofail: "uname \<notin> username ` set (users d)" "nanoid32 e \<notin> token ` set (sessions d)"
    and fk: "pages_have_users d"
    and free: "\<not> slug_taken (pages d) (candidate (nanoid6 e) (uniqueSlug uname) n)"
  shows "resp (post_signup d e req) = Redirect ''/dashboard'' \<and>
         set_cookie (post_signup d e req) = SetCookie (nanoid32 e) \<and>
         users (store (post_signup d e req)) =
           users d @ [new_user d e uname (signup_password req)] \<and>
         sessions (store (post_signup d e req)) =
           sessions d @ [new_session e (next_user_id d)] \<and>
         (\<exists>s. pages (store (post_signup d e req)) =
                pages d @ [new_page e (next_user_id d) uname s] \<and> \<not> slug_taken (pages d) s) \<and>
         invite_keys (store (post_signup d e req)) =
           invite_keys (update_invite_used d (next_user_id d) (now_invite e) (signup_invite req)) \<and>
         impersonations (store (post_signup d e req)) = impersonations d"
proof -
  let ?uid = "next_user_id d"
  let ?d1 = "d\<lparr>users := users d @ [new_user d e uname (signup_password req)]\<rparr>"
  let ?d2 = "update_invite_used ?d1 ?uid (now_invite e) (signup_invite req)"
  have nt: "\<not> used_by_truthy row" using v(4) by (simp add: used_by_truthy_def)
  have ins: "insert_user d uname (bcrypt_hash e (signup_password req)) (now_user e) = Inr (?d1, ?uid)"
    using insert_user_fresh[OF nofail(1)] by (simp add: new_user_def)
  have "page_user_id ` set (pages d) \<subseteq> user_id ` set (users d)"
    using fk by (auto simp: pages_have_users_def list_all_iff)
  then have "?uid \<notin> page_user_id ` set (pages d)" using next_user_id_fresh[of d] by blast
  then have nopage: "get_page_by_user ?d2 ?uid = None"
    by (simp add: get_page_None_iff)
  have "\<not> (\<forall>m. slug_taken (pages ?d2) (candidate (nanoid6 e) (uniqueSlug uname) m))"
    using free by auto
  then have "uniqueSlugEnsure (pages ?d2) (nanoid6 e) uname \<noteq> None"
    using iffD1[OF uniqueSlugEnsure_None_iff, of "pages ?d2" "nanoid6 e" uname] by blast
  then obtain s where s: "uniqueSlugEnsure (pages ?d2) (nanoid6 e) uname = Some s" by blast
  then have sfree: "\<not> slug_taken (pages d) s"
    using iffD1[OF uniqueSlugEnsure_Some_iff, of "pages ?d2" "nanoid6 e" uname s] by auto
  let ?d3 = "?d2\<lparr>pages := pages ?d2 @ [new_page e ?uid uname s]\<rparr>"
  have isuser: "?uid \<in> user_id ` set (users ?d2)" by (simp add: new_user_def)
  have en: "ensurePageForUser ?d2 e ?uid uname = (Returned, ?d3)"
    by (rule ensurePage_new[OF nopage s isuser])
  let ?d4 = "?d3\<lparr>sessions := sessions ?d3 @ [new_session e ?uid]\<rparr>"
  have isn: "insert_session ?d3 (new_session e ?uid) = Inr ?d4"
    by (rule insert_session_fresh) (simp add: nofail(2))
  have r: "post_signup d e req =
       \<lparr>resp = Redirect ''/dashboard'', set_cookie = SetCookie (nanoid32 e), store = ?d4\<rparr>"
    unfolding post_signup_valid[OF v(1,2,3) nt] ins
    by (simp only: sum.case prod.case en flow.case isn)
  have pg: "pages ?d4 = pages d @ [new_page e ?uid uname s]" by simp
  have k: "invite_keys ?d4 =
        invite_keys (update_invite_used d ?uid (now_invite e) (signup_invite req))"
    by (simp add: update_invite_used_def)
  show ?thesis unfolding r using pg sfree k by auto
qed


lemma get_invite_after_update:
  assumes "get_invite d k = Some row"
  shows "get_invite (update_invite_used d uid ts k) k =
           Some (row\<lparr>used_by := Some uid, used_at := Some ts\<rparr>)"
proof -
  let ?g = "\<lambda>r. if key r = k then r\<lparr>used_by := Some uid, used_at := Some ts\<rparr> else r"
  have kr: "key row = k" using assms unfolding get_invite_def by (auto dest: find_Some_mem)
  have "get_invite (update_invite_used d uid ts k) k = map_option ?g (get_invite d k)"
    unfolding get_invite_def update_invite_used_def by (simp add: find_map_key)
  then show ?thesis using assms kr by simp
qed

lemma invite_spent_rejects:
  assumes "invite_spent d (signup_invite req)"
  shows "\<exists>msg. post_signup d e req = answer (Render ''signup'' (Some msg)) d"
proof -
  from assms obtain row where "get_invite d (signup_invite req) = Some row" "used_by_truthy row"
    by (auto simp: invite_spent_def split: option.splits)
  then show ?thesis by (intro post_signup_rejected) blast
qed

subsection \<open>The page creation where the slug search never returns\<close>

lemma stuck_search_never_returns:
  "uniqueSlugEnsure (full_pages @ [demo_page 9999 ''user-aaaaaa'']) stuck_rnd ''user'' = None"
proof -
  have "\<forall>n. slug_taken (full_pages @ [demo_page 9999 ''user-aaaaaa''])
              (candidate stuck_rnd (uniqueSlug ''user'') n)"
  proof
    fix n
    show "slug_taken (full_pages @ [demo_page 9999 ''user-aaaaaa''])
              (candidate stuck_rnd (uniqueSlug ''user'') n)"
    proof (cases "n < 9998")
      case True
      then show ?thesis using full_pages_taken[OF True]
        by (simp add: slug_taken_iff uniqueSlug_user)
    next
      case False
      then have "candidate stuck_rnd ''user'' n = ''user-aaaaaa''" by (intro candidate_tail) simp
      then show ?thesis by (simp add: slug_taken_iff uniqueSlug_user slug_demo_page)
    qed
  qed
  then show ?thesis by (rule iffD2[OF uniqueSlugEnsure_None_iff])
qed

lemma user_id_demo_page: "page_user_id (demo_page i s) = i"
  by (simp add: demo_page_def)

lemma user_id_demo_user: "user_id (demo_user i n p b) = i"
  by (simp add: demo_user_def)

lemma stuck_page_ids:
  "map page_user_id (pages stuck_db) = map (\<lambda>n. int n + 1) [0..<9998] @ [9999]"
  by (simp add: stuck_db_def full_pages_def user_id_demo_page comp_def)

lemma stuck_pages_distinct: "distinct (map page_user_id (pages stuck_db))"
proof -
  have "inj_on (\<lambda>n. int n + 1) (set [0..<9998])" by (rule inj_onI) simp
  then have "distinct (map (\<lambda>n. int n + 1) [0..<9998])" by (simp add: distinct_map)
  moreover have "(9999::int) \<notin> set (map (\<lambda>n. int n + 1) [0..<9998])" by auto
  ultimately show ?thesis unfolding stuck_page_ids by simp
qed

lemma stuck_no_page: "get_page_by_user stuck_db 10000 = None"
proof -
  have "(10000::int) \<notin> set (map page_user_id (pages stuck_db))"
    unfolding stuck_page_ids by auto
  then show ?thesis by (simp add: get_page_None_iff)
qed

lemma stuck_is_user: "10000 \<in> user_id ` set (users stuck_db)"
  by (simp add: stuck_db_def user_id_demo_user)

lemma stuck_diverges:
  "ensurePageForUser stuck_db stuck_env 10000 ''user'' = (Diverges, stuck_db)"
proof (rule ensurePage_diverges[OF stuck_no_page])
  show "uniqueSlugEnsure (pages stuck_db) (nanoid6 stuck_env) ''user'' = None"
    using stuck_search_never_returns by (simp add: stuck_db_def stuck_env_def)
qed

lemma stuck_no_rows: "page_rows stuck_db 10000 = 0"
proof -
  have "10000 \<notin> page_user_id ` set (pages stuck_db)"
    using stuck_no_page by (simp add: get_page_None_iff)
  then show ?thesis unfolding page_rows_def by (simp add: count_key_absent)
qed

lemma stuck_all_taken:
  "\<forall>n. slug_taken (pages stuck_db) (candidate (nanoid6 stuck_env) (uniqueSlug ''user'') n)"
proof -
  have "uniqueSlugEnsure (pages stuck_db) (nanoid6 stuck_env) ''user'' = None"
    using stuck_search_never_returns by (simp add: stuck_db_def stuck_env_def)
  then show ?thesis by (rule iffD1[OF uniqueSlugEnsure_None_iff])
qed

subsection \<open>The order of the GET routes\<close>

lemma get_request_fields [simp]:
  "route (get_request r c s) = r" "cookie (get_request r c s) = c"
  "param_slug (get_request r c s) = s"
  by (simp_all add: get_request_def)

lemma dispatch_to_slug:
  assumes "\<not> reserved_path path" "\<not> (under_public path \<and> static_serves x path)"
    "slug_segment path = Some seg" "decodeURIComponent x seg = Some s"
  shows "dispatch_get x d e c path = get_slug d (get_request GetSlug c s)"
  using assms by (auto simp: dispatch_get_def reserved_path_def handle_def)

lemma resp_with_auth_not_profile:
  assumes "\<And>usr. resp (k usr) \<noteq> RenderProfile p l"
  shows "resp (with_auth d req k) \<noteq> RenderProfile p l"
  using assms by (auto simp: with_auth_def requireAuth_def Let_def split: option.splits if_splits)

lemma resp_with_admin_not_profile:
  assumes "\<And>usr. resp (k usr) \<noteq> RenderProfile p l"
  shows "resp (with_admin d req k) \<noteq> RenderProfile p l"
  unfolding with_admin_def
  by (rule resp_with_auth_not_profile) (auto simp: assms requireAdmin_def split: option.splits if_splits)

lemma resp_get_root_not_profile: "resp (get_root d req) \<noteq> RenderProfile p l"
  by (simp add: get_root_def split: option.splits)

lemma resp_render_dashboard_not_profile:
  "resp (render_dashboard d req usr err ok) \<noteq> RenderProfile p l"
  by (simp add: render_dashboard_def split: option.splits)

lemma resp_get_dashboard_not_profile: "resp (get_dashboard d e req) \<noteq> RenderProfile p l"
  unfolding get_dashboard_def
proof (rule resp_with_auth_not_profile)
  fix usr :: user
  obtain f d1 where en: "ensurePageForUser d e (user_id usr) (username usr) = (f, d1)"
    by (cases "ensurePageForUser d e (user_id usr) (username usr)")
  show "resp (case ensurePageForUser d e (user_id usr) (username usr) of
                 (Diverges, d1) \<Rightarrow> answer NoReturn d1
               | (Throws err, d1) \<Rightarrow> answer (Unhandled err) d1
               | (Returned, d1) \<Rightarrow> render_dashboard d1 req usr None None) \<noteq> RenderProfile p l"
    unfolding en by (cases f) (simp_all add: resp_render_dashboard_not_profile)
qed

lemma reserved_not_profile:
  assumes "reserved_path path"
  shows "resp (dispatch_get x d e c path) \<noteq> RenderProfile p l"
proof (cases "under_public path \<and> static_serves x path")
  case True
  then show ?thesis by (simp add: dispatch_get_def)
next
  case False
  have ad: "resp (with_admin d req (\<lambda>usr. answer r d)) \<noteq> RenderProfile p l"
    if "r \<noteq> RenderProfile p l" for req r
    by (rule resp_with_admin_not_profile) (simp add: that)
  from assms False show ?thesis
    unfolding reserved_path_def dispatch_get_def
    by (auto simp: handle_def resp_get_root_not_profile resp_get_dashboard_not_profile ad)
qed

lemma path_matches_login: "path_matches ''/login'' path \<Longrightarrow>
  path \<noteq> ''/'' \<and> \<not> path_matches ''/signup'' path \<and> \<not> under_public path"
  by (auto simp: path_matches_def under_public_def Let_def)

lemma dispatch_login:
  "path_matches ''/login'' path \<Longrightarrow> dispatch_get x d e c path = answer (Render ''login'' None) d"
  using path_matches_login[of path] by (simp add: dispatch_get_def handle_def)

section \<open>The properties\<close>



text \<open>
  C9. The public profile route normalizes the requested path segment (lower case, only the
  characters of \<open>[a-z0-9_-]\<close>, at most 32 of them) before the lookup: a request that reaches
  the handler and whose segment normalizes to the slug of a stored page renders that page, and
  one whose segment normalizes to no stored slug is answered 404. A GET request reaches the
  handler when its path is a single segment that no route registered earlier matches
  (\<open>/\<close>, \<open>/signup\<close>, \<open>/login\<close>, \<open>/dashboard\<close>, \<open>/admin\<close>, \<open>/admin/keys\<close>, \<open>/admin/users\<close>,
  compared without case and with an optional closing slash), that the static middleware does
  not serve, and whose segment decodes. A path matched by an earlier route never renders a
  profile: \<open>/login\<close> in any case is answered with the login form, whatever pages are stored.
  (Slugs are unique in the pages table.)
\<close>

theorem profile_route_after_the_fixed_routes:
  assumes "distinct (map slug (pages d))"
  shows "normalizeSlug (param_slug req) =
           take 32 (filter slug_char (map toLowerCase_char (param_slug req))) \<and>
         (p \<in> set (pages d) \<and> normalizeSlug (param_slug req) = slug p \<longrightarrow>
            get_slug d req = answer (RenderProfile p (links_json p)) d) \<and>
         (normalizeSlug (param_slug req) \<notin> slug ` set (pages d) \<longrightarrow>
            get_slug d req = answer (Status 404 ''Not found'') d) \<and>
         (\<not> reserved_path path \<and> \<not> (under_public path \<and> static_serves x path) \<and>
          slug_segment path = Some seg \<and> decodeURIComponent x seg = Some s \<and>
          p \<in> set (pages d) \<and> normalizeSlug s = slug p \<longrightarrow>
            dispatch_get x d e c path = answer (RenderProfile p (links_json p)) d) \<and>
         (\<not> reserved_path path \<and> \<not> (under_public path \<and> static_serves x path) \<and>
          slug_segment path = Some seg \<and> decodeURIComponent x seg = Some s \<and>
          normalizeSlug s \<notin> slug ` set (pages d) \<longrightarrow>
            dispatch_get x d e c path = answer (Status 404 ''Not found'') d) \<and>
         (reserved_path path \<longrightarrow> resp (dispatch_get x d e c path) \<noteq> RenderProfile p l) \<and>
         (path_matches ''/login'' path \<longrightarrow>
            dispatch_get x d e c path = answer (Render ''login'' None) d)"
proof -
  have hit: "get_slug d r = answer (RenderProfile p (links_json p)) d"
    if "p \<in> set (pages d)" "normalizeSlug (param_slug r) = slug p" for r
  proof -
    have "find (\<lambda>y. slug y = slug p) (pages d) = Some p"
      using assms that(1) by (rule find_distinct_key)
    then show ?thesis using that(2) by (simp add: get_slug_def get_page_by_slug_def Let_def)
  qed
  have miss: "get_slug d r = answer (Status 404 ''Not found'') d"
    if "normalizeSlug (param_slug r) \<notin> slug ` set (pages d)" for r
  proof -
    have "find (\<lambda>y. slug y = normalizeSlug (param_slug r)) (pages d) = None"
      using that by (simp add: find_none_key)
    then show ?thesis by (simp add: get_slug_def get_page_by_slug_def Let_def)
  qed
  have routed_hit: "dispatch_get x d e c path = answer (RenderProfile p (links_json p)) d"
    if "\<not> reserved_path path \<and> \<not> (under_public path \<and> static_serves x path) \<and>
          slug_segment path = Some seg \<and> decodeURIComponent x seg = Some s \<and>
          p \<in> set (pages d) \<and> normalizeSlug s = slug p"
  proof -
    from that have "dispatch_get x d e c path = get_slug d (get_request GetSlug c s)"
      by (intro dispatch_to_slug) blast+
    then show ?thesis using hit[of "get_request GetSlug c s"] that by simp
  qed
  have routed_miss: "dispatch_get x d e c path = answer (Status 404 ''Not found'') d"
    if "\<not> reserved_path path \<and> \<not> (under_public path \<and> static_serves x path) \<and>
          slug_segment path = Some seg \<and> decodeURIComponent x seg = Some s \<and>
          normalizeSlug s \<notin> slug ` set (pages d)"
  proof -
    from that have "dispatch_get x d e c path = get_slug d (get_request GetSlug c s)"
      by (intro dispatch_to_slug) blast+
    then show ?thesis using miss[of "get_request GetSlug c s"] that by simp
  qed
  show ?thesis
    using normalizeSlug_plain[of "param_slug req"] hit[of req] miss[of req] routed_hit routed_miss
      reserved_not_profile[of path x d e c p l] dispatch_login[of path x d e c]
    by blast
qed

theorem profile_route_witness:
  "distinct (map slug (pages demo_db)) \<and>
   demo_page 2 ''alice'' \<in> set (pages demo_db) \<and>
   \<not> reserved_path ''/ALICE/'' \<and>
   \<not> (under_public ''/ALICE/'' \<and> static_serves demo_express ''/ALICE/'') \<and>
   slug_segment ''/ALICE/'' = Some ''ALICE'' \<and>
   decodeURIComponent demo_express ''ALICE'' = Some ''ALICE'' \<and>
   normalizeSlug ''ALICE'' = slug (demo_page 2 ''alice'') \<and>
   dispatch_get demo_express demo_db demo_env None ''/ALICE/'' =
     answer (RenderProfile (demo_page 2 ''alice'') (links_json (demo_page 2 ''alice''))) demo_db \<and>
   \<not> reserved_path ''/carol'' \<and>
   slug_segment ''/carol'' = Some ''carol'' \<and>
   decodeURIComponent demo_express ''carol'' = Some ''carol'' \<and>
   normalizeSlug ''carol'' \<notin> slug ` set (pages demo_db) \<and>
   dispatch_get demo_express demo_db demo_env None ''/carol'' =
     answer (Status 404 ''Not found'') demo_db \<and>
   path_matches ''/login'' ''/LOGIN'' \<and>
   dispatch_get demo_express demo_db demo_env None ''/LOGIN'' =
     answer (Render ''login'' None) demo_db"
proof -
  let ?p = "demo_page 2 ''alice''"
  let ?r = "demo_request GetSlug None Map.empty"
  have d: "distinct (map slug (pages demo_db))" by code_simp
  have m: "?p \<in> set (pages demo_db)" by (simp add: demo_db_def)
  have a1: "\<not> reserved_path ''/ALICE/''" by code_simp
  have a2: "\<not> (under_public ''/ALICE/'' \<and> static_serves demo_express ''/ALICE/'')" by code_simp
  have a3: "slug_segment ''/ALICE/'' = Some ''ALICE''" by code_simp
  have a4: "decodeURIComponent demo_express ''ALICE'' = Some ''ALICE''" by code_simp
  have a5: "normalizeSlug ''ALICE'' = slug ?p" by code_simp
  have c1: "\<not> reserved_path ''/carol''" by code_simp
  have c2: "\<not> (under_public ''/carol'' \<and> static_serves demo_express ''/carol'')" by code_simp
  have c3: "slug_segment ''/carol'' = Some ''carol''" by code_simp
  have c4: "decodeURIComponent demo_express ''carol'' = Some ''carol''" by code_simp
  have c5: "normalizeSlug ''carol'' \<notin> slug ` set (pages demo_db)" by code_simp
  have l1: "path_matches ''/login'' ''/LOGIN''" by code_simp
  have g1: "dispatch_get demo_express demo_db demo_env None ''/ALICE/'' =
     answer (RenderProfile ?p (links_json ?p)) demo_db"
    using profile_route_after_the_fixed_routes[OF d, of ?r ?p "''/ALICE/''" demo_express
        "''ALICE''" "''ALICE''" demo_env None] m a1 a2 a3 a4 a5 by blast
  have g2: "dispatch_get demo_express demo_db demo_env None ''/carol'' =
     answer (Status 404 ''Not found'') demo_db"
    using profile_route_after_the_fixed_routes[OF d, of ?r ?p "''/carol''" demo_express
        "''carol''" "''carol''" demo_env None] c1 c2 c3 c4 c5 by blast
  have g3: "dispatch_get demo_express demo_db demo_env None ''/LOGIN'' =
     answer (Render ''login'' None) demo_db"
    using profile_route_after_the_fixed_routes[OF d, of ?r ?p "''/LOGIN''" demo_express
        "''LOGIN''" "''LOGIN''" demo_env None] l1 by blast
  from d m a1 a2 a3 a4 a5 c1 c3 c4 c5 l1 g1 g2 g3 show ?thesis by blast
qed

text \<open>
  As the specification words it (for every stored page, any request whose segment normalizes
  to the slug of the page), the property fails: the signup of the username \<open>login\<close> stores a
  page with the slug \<open>login\<close>, and the requests \<open>GET /login\<close> and \<open>GET /LOGIN\<close>, whose segment
  normalizes to that slug, are answered with the login form.
\<close>

theorem profile_route_shadowed_counterexample:
  "resp (post_signup demo_db demo_env (signup_request ''login'' ''secret1'' ''FRESHKEY01'')) =
     Redirect ''/dashboard'' \<and>
   slug_taken
     (pages (store (post_signup demo_db demo_env (signup_request ''login'' ''secret1'' ''FRESHKEY01''))))
     ''login'' \<and>
   slug_segment ''/login'' = Some ''login'' \<and>
   slug_segment ''/LOGIN'' = Some ''LOGIN'' \<and>
   normalizeSlug ''login'' = ''login'' \<and>
   normalizeSlug ''LOGIN'' = ''login'' \<and>
   dispatch_get demo_express
     (store (post_signup demo_db demo_env (signup_request ''login'' ''secret1'' ''FRESHKEY01'')))
     demo_env None ''/login'' =
     answer (Render ''login'' None)
       (store (post_signup demo_db demo_env (signup_request ''login'' ''secret1'' ''FRESHKEY01''))) \<and>
   dispatch_get demo_express
     (store (post_signup demo_db demo_env (signup_request ''login'' ''secret1'' ''FRESHKEY01'')))
     demo_env None ''/LOGIN'' =
     answer (Render ''login'' None)
       (store (post_signup demo_db demo_env (signup_request ''login'' ''secret1'' ''FRESHKEY01'')))"
proof -
  let ?d = "store (post_signup demo_db demo_env (signup_request ''login'' ''secret1'' ''FRESHKEY01''))"
  have r: "resp (post_signup demo_db demo_env (signup_request ''login'' ''secret1'' ''FRESHKEY01'')) =
     Redirect ''/dashboard''" by code_simp
  have t: "slug_taken (pages ?d) ''login''" by code_simp
  have s1: "slug_segment ''/login'' = Some ''login''" by code_simp
  have s2: "slug_segment ''/LOGIN'' = Some ''LOGIN''" by code_simp
  have n1: "normalizeSlug ''login'' = ''login''" by code_simp
  have n2: "normalizeSlug ''LOGIN'' = ''login''" by code_simp
  have m1: "path_matches ''/login'' ''/login''" by code_simp
  have m2: "path_matches ''/login'' ''/LOGIN''" by code_simp
  have g1: "dispatch_get demo_express ?d demo_env None ''/login'' = answer (Render ''login'' None) ?d"
    using m1 by (rule dispatch_login)
  have g2: "dispatch_get demo_express ?d demo_env None ''/LOGIN'' = answer (Render ''login'' None) ?d"
    using m2 by (rule dispatch_login)
  from r t s1 s2 n1 n2 g1 g2 show ?thesis by blast
qed


text \<open>
  C10. The slug validation of a page edit normalizes before it matches: the submitted slug
  is lowercased, stripped to \<open>[a-z0-9_-]\<close> and cut to 32 characters, and what remains is
  saved; the edit fails with the slug-format error exactly when what remains has fewer than 2
  characters; and an empty slug field keeps the current slug of the page (a well-formed slug,
  unique in the table).
\<close>

theorem slug_validation_normalizes_first:
  assumes "get_page_by_user d uid = Some pg"
  shows "validateSlug s = (if length (normalizeSlug s) < 2 then None else Some (normalizeSlug s)) \<and>
         normalizeSlug s = take 32 (filter slug_char (map toLowerCase_char s)) \<and>
         ((fst (savePageForUser d e uid req) = Inr (Some ''Slug must be 2-32: a-z 0-9 _ -'')) =
            (length (normalizeSlug (or_str (form req ''slug'') (slug pg))) < 2)) \<and>
         (savePageForUser d e uid req = (Inr None, d') \<longrightarrow>
            (\<forall>p\<in>set (pages d'). page_user_id p = uid \<longrightarrow>
                slug p = normalizeSlug (or_str (form req ''slug'') (slug pg)))) \<and>
         ((form req ''slug'' = None \<or> form req ''slug'' = Some []) \<and>
          validateSlug (slug pg) = Some (slug pg) \<and> distinct (map slug (pages d)) \<longrightarrow>
            (\<exists>d1 pg1. savePageForUser d e uid req = (Inr None, d1) \<and>
                       get_page_by_user d1 uid = Some pg1 \<and> slug pg1 = slug pg))"
proof (intro conjI impI ballI)
  show "validateSlug s = (if length (normalizeSlug s) < 2 then None else Some (normalizeSlug s))"
    by (rule validateSlug_eq)
  show "normalizeSlug s = take 32 (filter slug_char (map toLowerCase_char s))"
    by (rule normalizeSlug_plain)
  show "(fst (savePageForUser d e uid req) = Inr (Some ''Slug must be 2-32: a-z 0-9 _ -'')) =
            (length (normalizeSlug (or_str (form req ''slug'') (slug pg))) < 2)"
    using assms by (rule savePage_slug_error)
next
  fix p
  assume sv: "savePageForUser d e uid req = (Inr None, d')"
    and p: "p \<in> set (pages d')" "page_user_id p = uid"
  from savePage_success_fields[OF sv assms p]
  show "slug p = normalizeSlug (or_str (form req ''slug'') (slug pg))" ..
next
  assume a: "(form req ''slug'' = None \<or> form req ''slug'' = Some []) \<and>
          validateSlug (slug pg) = Some (slug pg) \<and> distinct (map slug (pages d))"
  from a have e: "form req ''slug'' = None \<or> form req ''slug'' = Some []" ..
  from a have w: "validateSlug (slug pg) = Some (slug pg)" by (elim conjE)
  from a have ds: "distinct (map slug (pages d))" by (elim conjE)
  show "\<exists>d1 pg1. savePageForUser d e uid req = (Inr None, d1) \<and>
                       get_page_by_user d1 uid = Some pg1 \<and> slug pg1 = slug pg"
    by (rule savePage_keep_slug[OF assms e w ds])
qed

theorem slug_validation_witness:
  "get_page_by_user demo_db 2 = Some (demo_page 2 ''alice'') \<and>
   fst (savePageForUser demo_db demo_env 2 (demo_request PostDashboard None (slug_form ''A!''))) =
     Inr (Some ''Slug must be 2-32: a-z 0-9 _ -'') \<and>
   fst (savePageForUser demo_db demo_env 2 (demo_request PostDashboard None (slug_form ''My Page!''))) =
     Inr None \<and>
   page_user_id (hd (pages (snd (savePageForUser demo_db demo_env 2
                            (demo_request PostDashboard None (slug_form ''My Page!'')))))) = 2 \<and>
   slug (hd (pages (snd (savePageForUser demo_db demo_env 2
                            (demo_request PostDashboard None (slug_form ''My Page!'')))))) = ''mypage'' \<and>
   (\<exists>d1 pg1. savePageForUser demo_db demo_env 2 (demo_request PostDashboard None (slug_form [])) =
                (Inr None, d1) \<and>
              get_page_by_user d1 2 = Some pg1 \<and> slug pg1 = ''alice'')"
proof -
  let ?pg = "demo_page 2 ''alice''"
  let ?r1 = "demo_request PostDashboard None (slug_form ''A!'')"
  let ?r2 = "demo_request PostDashboard None (slug_form ''My Page!'')"
  let ?r3 = "demo_request PostDashboard None (slug_form [])"
  let ?s2 = "savePageForUser demo_db demo_env 2 ?r2"
  let ?p = "hd (pages (snd ?s2))"
  have g: "get_page_by_user demo_db 2 = Some ?pg" by code_simp
  have l1: "length (normalizeSlug (or_str (form ?r1 ''slug'') (slug ?pg))) < 2" by code_simp
  have n2: "normalizeSlug (or_str (form ?r2 ''slug'') (slug ?pg)) = ''mypage''" by code_simp
  have f2: "fst ?s2 = Inr None" by code_simp
  have ok2: "?s2 = (Inr None, snd ?s2)" by (rule prod_eqI) (simp_all only: f2 fst_conv snd_conv)
  have u: "page_user_id ?p = 2" by code_simp
  have ne: "pages (snd ?s2) \<noteq> []" by code_simp
  then have mem: "?p \<in> set (pages (snd ?s2))" by (rule hd_in_set)
  have e3: "form ?r3 ''slug'' = None \<or> form ?r3 ''slug'' = Some []" by code_simp
  have w3: "validateSlug (slug ?pg) = Some (slug ?pg)" by code_simp
  have d3: "distinct (map slug (pages demo_db))" by code_simp
  have sl: "slug ?pg = ''alice''" by code_simp
  have a1: "fst (savePageForUser demo_db demo_env 2 ?r1) = Inr (Some ''Slug must be 2-32: a-z 0-9 _ -'')"
    using slug_validation_normalizes_first[OF g, of "[]" demo_env ?r1 demo_db] l1 by blast
  have "\<forall>p\<in>set (pages (snd ?s2)). page_user_id p = 2 \<longrightarrow> slug p = ''mypage''"
    using slug_validation_normalizes_first[OF g, of "[]" demo_env ?r2 "snd ?s2"] ok2
    unfolding n2 by blast
  then have a2: "slug ?p = ''mypage''" using mem u by blast
  have a3: "\<exists>d1 pg1. savePageForUser demo_db demo_env 2 ?r3 = (Inr None, d1) \<and>
              get_page_by_user d1 2 = Some pg1 \<and> slug pg1 = ''alice''"
    using slug_validation_normalizes_first[OF g, of "[]" demo_env ?r3 demo_db] e3 w3 d3
    unfolding sl by blast
  from g a1 f2 u a2 a3 show ?thesis by blast
qed

text \<open>
  C6 (amended). For every username, the slug search first tries the normalized base (the
  literal \<open>user\<close> when normalization yields the empty string), then the base with the decimal
  suffixes 2, 3, ..., 9998 in this order, and from then on the base, a dash and a fresh random
  tail per round; it returns the first candidate of this sequence that is not in the pages
  table, and it runs forever exactly when every candidate is taken. With fewer than 9998
  pages it always returns.
\<close>

theorem slug_search_tries_candidates_in_order:
  "candidate rnd (uniqueSlug u) 0 = (if normalizeSlug u = [] then ''user'' else normalizeSlug u) \<and>
   (1 \<le> n \<and> n \<le> 9997 \<longrightarrow> candidate rnd (uniqueSlug u) n = uniqueSlug u @ dec (n + 1)) \<and>
   (9998 \<le> n \<longrightarrow>
      candidate rnd (uniqueSlug u) n = uniqueSlug u @ ''-'' @ toLowerCase (rnd (n - 9998))) \<and>
   ((uniqueSlugEnsure ps rnd u = Some y) =
      (\<exists>m. y = candidate rnd (uniqueSlug u) m \<and> \<not> slug_taken ps y \<and>
           (\<forall>j<m. slug_taken ps (candidate rnd (uniqueSlug u) j)))) \<and>
   ((uniqueSlugEnsure ps rnd u = None) = (\<forall>m. slug_taken ps (candidate rnd (uniqueSlug u) m))) \<and>
   (length ps < 9998 \<longrightarrow> (\<exists>s. uniqueSlugEnsure ps rnd u = Some s \<and> \<not> slug_taken ps s))"
proof (intro conjI impI)
  show "candidate rnd (uniqueSlug u) 0 = (if normalizeSlug u = [] then ''user'' else normalizeSlug u)"
    by (simp add: candidate_def uniqueSlug_def Let_def)
  show "(uniqueSlugEnsure ps rnd u = Some y) =
      (\<exists>m. y = candidate rnd (uniqueSlug u) m \<and> \<not> slug_taken ps y \<and>
           (\<forall>j<m. slug_taken ps (candidate rnd (uniqueSlug u) j)))"
    by (rule uniqueSlugEnsure_Some_iff)
  show "(uniqueSlugEnsure ps rnd u = None) = (\<forall>m. slug_taken ps (candidate rnd (uniqueSlug u) m))"
    by (rule uniqueSlugEnsure_None_iff)
next
  assume "1 \<le> n \<and> n \<le> 9997"
  then show "candidate rnd (uniqueSlug u) n = uniqueSlug u @ dec (n + 1)"
    by (simp add: candidate_def)
next
  assume "9998 \<le> n"
  then show "candidate rnd (uniqueSlug u) n = uniqueSlug u @ ''-'' @ toLowerCase (rnd (n - 9998))"
    by (simp add: candidate_def)
next
  assume "length ps < 9998"
  from few_pages_free_candidate[OF this, of rnd "uniqueSlug u"]
  have "\<not> (\<forall>m. slug_taken ps (candidate rnd (uniqueSlug u) m))" by blast
  then have "uniqueSlugEnsure ps rnd u \<noteq> None"
    using iffD1[OF uniqueSlugEnsure_None_iff, of ps rnd u] by blast
  then obtain s where s: "uniqueSlugEnsure ps rnd u = Some s" by blast
  then have "\<not> slug_taken ps s" unfolding uniqueSlugEnsure_Some_iff by blast
  with s show "\<exists>s. uniqueSlugEnsure ps rnd u = Some s \<and> \<not> slug_taken ps s" by blast
qed

theorem slug_search_witness:
  "length (pages demo_db) < 9998 \<and>
   candidate (nanoid6 demo_env) (uniqueSlug ''Alice'') 1 = ''alice2'' \<and>
   candidate (nanoid6 demo_env) (uniqueSlug ''Alice'') 9998 = ''alice-abcdef'' \<and>
   uniqueSlugEnsure (pages demo_db) (nanoid6 demo_env) ''Alice'' = Some ''alice2'' \<and>
   \<not> slug_taken (pages demo_db) ''alice2''"
proof -
  let ?c = "candidate (nanoid6 demo_env) (uniqueSlug ''Alice'')"
  have len: "length (pages demo_db) < 9998" by code_simp
  have nz: "normalizeSlug ''Alice'' = ''alice''" by code_simp
  have u: "uniqueSlug ''Alice'' = ''alice''" by code_simp
  have d2: "dec (1 + 1) = ''2''" by code_simp
  have pre: "(1::nat) \<le> 1 \<and> (1::nat) \<le> 9997" by simp
  have r: "toLowerCase (nanoid6 demo_env 0) = ''abcdef''" by code_simp
  have t0: "slug_taken (pages demo_db) ''alice''" by code_simp
  have f1: "\<not> slug_taken (pages demo_db) ''alice2''" by code_simp
  note inst = slug_search_tries_candidates_in_order
                [of "nanoid6 demo_env" "''Alice''" _ "pages demo_db" "''alice2''"]
  have c0: "?c 0 = ''alice''"
    using inst[of 0, THEN conjunct1] by (simp add: nz)
  have c1: "?c 1 = ''alice2''"
    using mp[OF inst[of 1, THEN conjunct2, THEN conjunct1] pre]
    by (simp only: u d2 append_Cons append_Nil)
  have c2: "?c 9998 = ''alice-abcdef''"
    using inst[of 9998, THEN conjunct2, THEN conjunct2, THEN conjunct1] by (simp add: u r)
  have "\<forall>j<Suc 0. slug_taken (pages demo_db) (?c j)"
    using c0 t0 by simp
  then have "\<exists>m. ''alice2'' = ?c m \<and> \<not> slug_taken (pages demo_db) ''alice2'' \<and>
           (\<forall>j<m. slug_taken (pages demo_db) (?c j))"
    using c1 f1 by (intro exI[of _ "Suc 0"]) simp
  then have "uniqueSlugEnsure (pages demo_db) (nanoid6 demo_env) ''Alice'' = Some ''alice2''"
    using inst[of 0, THEN conjunct2, THEN conjunct2, THEN conjunct2, THEN conjunct1] by blast
  with len c1 c2 f1 show ?thesis by blast
qed

text \<open>
  As the specification words it, the property fails twice at the table \<open>full_pages\<close>: with \<open>user\<close> and
  \<open>user2\<close> .. \<open>user9998\<close> taken (9998 failed checks) the search already leaves the numbered
  candidates, although \<open>user9999\<close> is free; and when the random candidate is taken too and
  the random source repeats itself, the search never returns.
\<close>

theorem slug_search_counterexample:
  "length full_pages = 9998 \<and>
   \<not> slug_taken full_pages ''user9999'' \<and>
   uniqueSlugEnsure full_pages stuck_rnd ''user'' = Some ''user-aaaaaa'' \<and>
   uniqueSlugEnsure (full_pages @ [demo_page 9999 ''user-aaaaaa'']) stuck_rnd ''user'' = None"
proof (intro conjI)
  show "length full_pages = 9998" by (simp add: full_pages_def)
  show "\<not> slug_taken full_pages ''user9999''" by (rule full_pages_no_9999)
  have "\<exists>n. ''user-aaaaaa'' = candidate stuck_rnd (uniqueSlug ''user'') n \<and>
          \<not> slug_taken full_pages ''user-aaaaaa'' \<and>
          (\<forall>j<n. slug_taken full_pages (candidate stuck_rnd (uniqueSlug ''user'') j))"
    unfolding uniqueSlug_user
    using candidate_tail[of 9998] full_pages_no_tail full_pages_taken
    by (intro exI[of _ 9998]) simp
  then show "uniqueSlugEnsure full_pages stuck_rnd ''user'' = Some ''user-aaaaaa''"
    by (rule iffD2[OF uniqueSlugEnsure_Some_iff])
  have "\<forall>n. slug_taken (full_pages @ [demo_page 9999 ''user-aaaaaa''])
              (candidate stuck_rnd (uniqueSlug ''user'') n)"
  proof
    fix n
    show "slug_taken (full_pages @ [demo_page 9999 ''user-aaaaaa''])
              (candidate stuck_rnd (uniqueSlug ''user'') n)"
    proof (cases "n < 9998")
      case True
      then show ?thesis using full_pages_taken[OF True]
        by (simp add: slug_taken_iff uniqueSlug_user)
    next
      case False
      then have "candidate stuck_rnd ''user'' n = ''user-aaaaaa''" by (intro candidate_tail) simp
      then show ?thesis by (simp add: slug_taken_iff uniqueSlug_user slug_demo_page)
    qed
  qed
  then show "uniqueSlugEnsure (full_pages @ [demo_page 9999 ''user-aaaaaa'']) stuck_rnd ''user'' = None"
    by (rule iffD2[OF uniqueSlugEnsure_None_iff])
qed

text \<open>
  C5. \<open>ensurePageForUser\<close> is idempotent where it returns. The first call returns exactly
  when the user has a page already, or the id is that of a stored user and some candidate slug
  is free; then a second call, with any username, returns too and leaves the store as the first
  one left it, and the user has exactly one page row. When the user has no page and every
  candidate slug is taken, the first call never returns; when the user has no page, the id is
  that of no stored user and a candidate slug is free, the INSERT is rejected by the foreign
  key of the pages table. In both cases the store is unchanged. (\<open>user_id\<close> is the primary key
  of the pages table.)
\<close>

theorem ensurePage_idempotent_when_it_returns:
  assumes pk: "distinct (map page_user_id (pages d))"
  shows "(ensurePageForUser d e uid uname = (Returned, d1) \<longrightarrow>
            ensurePageForUser d1 e' uid uname' = (Returned, d1) \<and> page_rows d1 uid = 1) \<and>
         ((\<exists>d2. ensurePageForUser d e uid uname = (Returned, d2)) =
            (get_page_by_user d uid \<noteq> None \<or>
             (uid \<in> user_id ` set (users d) \<and>
              (\<exists>n. \<not> slug_taken (pages d) (candidate (nanoid6 e) (uniqueSlug uname) n))))) \<and>
         (get_page_by_user d uid = None \<and>
          (\<forall>n. slug_taken (pages d) (candidate (nanoid6 e) (uniqueSlug uname) n)) \<longrightarrow>
            ensurePageForUser d e uid uname = (Diverges, d)) \<and>
         (get_page_by_user d uid = None \<and> uid \<notin> user_id ` set (users d) \<and>
          \<not> slug_taken (pages d) (candidate (nanoid6 e) (uniqueSlug uname) m) \<longrightarrow>
            ensurePageForUser d e uid uname = (Throws ForeignKeyViolation, d))"
proof -
  let ?free = "\<exists>n. \<not> slug_taken (pages d) (candidate (nanoid6 e) (uniqueSlug uname) n)"
  have search: "(uniqueSlugEnsure (pages d) (nanoid6 e) uname = None) = (\<not> ?free)"
    using uniqueSlugEnsure_None_iff[of "pages d" "nanoid6 e" uname] by blast
  note cs = ensurePage_cases[of d uid e uname]
  have twice: "ensurePageForUser d1 e' uid uname' = (Returned, d1) \<and> page_rows d1 uid = 1"
    if ret: "ensurePageForUser d e uid uname = (Returned, d1)"
  proof -
    from cs ret consider
      (old) pg where "get_page_by_user d uid = Some pg" "d1 = d"
    | (new) s where "get_page_by_user d uid = None"
        "d1 = d\<lparr>pages := pages d @ [new_page e uid uname s]\<rparr>"
      by auto
    then show ?thesis
    proof cases
      case old
      then have mem: "pg \<in> set (pages d)" and own: "page_user_id pg = uid"
        by (auto simp: get_page_by_user_def dest: find_Some_mem)
      have "page_rows d uid = 1"
        unfolding page_rows_def using count_key_distinct[OF pk mem] own by simp
      then show ?thesis using ensurePage_existing[OF old(1), of e' uname'] old(2) by simp
    next
      case new
      from new(1) have fu: "uid \<notin> page_user_id ` set (pages d)" by (simp add: get_page_None_iff)
      have "get_page_by_user d1 uid = Some (new_page e uid uname s)"
        unfolding get_page_by_user_def new(2)
        using find_append_new[OF fu, of "new_page e uid uname s"] by simp
      then have second: "ensurePageForUser d1 e' uid uname' = (Returned, d1)"
        by (rule ensurePage_existing)
      have "page_rows d1 uid = 1"
        unfolding page_rows_def new(2) using count_key_absent[OF fu] by simp
      with second show ?thesis by simp
    qed
  qed
  have returns_iff: "(\<exists>d2. ensurePageForUser d e uid uname = (Returned, d2)) =
            (get_page_by_user d uid \<noteq> None \<or> (uid \<in> user_id ` set (users d) \<and> ?free))"
    using cs search by (cases "get_page_by_user d uid") auto
  have div: "ensurePageForUser d e uid uname = (Diverges, d)"
    if "get_page_by_user d uid = None \<and>
          (\<forall>n. slug_taken (pages d) (candidate (nanoid6 e) (uniqueSlug uname) n))"
    using that search by (intro ensurePage_diverges) auto
  have rej: "ensurePageForUser d e uid uname = (Throws ForeignKeyViolation, d)"
    if "get_page_by_user d uid = None \<and> uid \<notin> user_id ` set (users d) \<and>
          \<not> slug_taken (pages d) (candidate (nanoid6 e) (uniqueSlug uname) m)"
    using cs that search by auto
  from twice returns_iff div rej show ?thesis by blast
qed

theorem ensurePage_witness:
  "distinct (map page_user_id (pages demo_db)) \<and>
   fst (ensurePageForUser demo_db demo_env 1 ''iqsm'') = Returned \<and>
   ensurePageForUser (snd (ensurePageForUser demo_db demo_env 1 ''iqsm'')) demo_env2 1 ''iqsm'' =
     (Returned, snd (ensurePageForUser demo_db demo_env 1 ''iqsm'')) \<and>
   page_rows (snd (ensurePageForUser demo_db demo_env 1 ''iqsm'')) 1 = 1 \<and>
   distinct (map page_user_id (pages stuck_db)) \<and>
   ensurePageForUser stuck_db stuck_env 10000 ''user'' = (Diverges, stuck_db) \<and>
   ensurePageForUser demo_db demo_env 99 ''ghost'' = (Throws ForeignKeyViolation, demo_db)"
proof -
  let ?first = "ensurePageForUser demo_db demo_env 1 ''iqsm''"
  have pk: "distinct (map page_user_id (pages demo_db))" by code_simp
  have f: "fst ?first = Returned" by code_simp
  have ret: "?first = (Returned, snd ?first)"
    by (rule prod_eqI) (simp_all only: f fst_conv snd_conv)
  have a: "ensurePageForUser (snd ?first) demo_env2 1 ''iqsm'' = (Returned, snd ?first) \<and>
           page_rows (snd ?first) 1 = 1"
    using ensurePage_idempotent_when_it_returns
            [OF pk, of demo_env 1 "''iqsm''" "snd ?first" demo_env2 "''iqsm''"] ret
    by blast
  have np: "get_page_by_user stuck_db 10000 = None" by (rule stuck_no_page)
  have b: "ensurePageForUser stuck_db stuck_env 10000 ''user'' = (Diverges, stuck_db)"
    using ensurePage_idempotent_when_it_returns
            [OF stuck_pages_distinct, of stuck_env 10000 "''user''"] np stuck_all_taken
    by blast
  have g1: "get_page_by_user demo_db 99 = None" by code_simp
  have g2: "99 \<notin> user_id ` set (users demo_db)" by code_simp
  have u: "uniqueSlug ''ghost'' = ''ghost''" by code_simp
  have c0: "candidate (nanoid6 demo_env) ''ghost'' 0 = ''ghost''" by (simp add: candidate_def)
  have t: "\<not> slug_taken (pages demo_db) ''ghost''" by code_simp
  have g3: "\<not> slug_taken (pages demo_db) (candidate (nanoid6 demo_env) (uniqueSlug ''ghost'') 0)"
    by (simp only: u c0 t not_False_eq_True)
  have c: "ensurePageForUser demo_db demo_env 99 ''ghost'' = (Throws ForeignKeyViolation, demo_db)"
    using ensurePage_idempotent_when_it_returns
            [OF pk, of demo_env 99 "''ghost''" _ _ _ 0] g1 g2 g3
    by blast
  from pk f a stuck_pages_distinct b c show ?thesis by blast
qed

text \<open>
  As the specification words it (for every user id and username), the property fails: for the
  stored user 10000 named \<open>user\<close>, with every candidate slug taken, the call never returns
  and the user has no page row; and for the id 99 of no stored user the INSERT is rejected and
  there is no page row either.
\<close>

theorem ensurePage_counterexample:
  "10000 \<in> user_id ` set (users stuck_db) \<and>
   distinct (map page_user_id (pages stuck_db)) \<and>
   ensurePageForUser stuck_db stuck_env 10000 ''user'' = (Diverges, stuck_db) \<and>
   page_rows stuck_db 10000 = 0 \<and>
   99 \<notin> user_id ` set (users demo_db) \<and>
   ensurePageForUser demo_db demo_env 99 ''ghost'' = (Throws ForeignKeyViolation, demo_db) \<and>
   page_rows demo_db 99 = 0"
proof (intro conjI)
  show "10000 \<in> user_id ` set (users stuck_db)" by (rule stuck_is_user)
  show "distinct (map page_user_id (pages stuck_db))" by (rule stuck_pages_distinct)
  show "ensurePageForUser stuck_db stuck_env 10000 ''user'' = (Diverges, stuck_db)"
    by (rule stuck_diverges)
  show "page_rows stuck_db 10000 = 0" by (rule stuck_no_rows)
  show "99 \<notin> user_id ` set (users demo_db)" by code_simp
  show "ensurePageForUser demo_db demo_env 99 ''ghost'' = (Throws ForeignKeyViolation, demo_db)"
    by code_simp
  show "page_rows demo_db 99 = 0" by code_simp
qed





text \<open>
  C3 (amended). A login for a username that has no account, and a login on an account that is
  not banned with a password that does not verify, get the same reply, \<open>Invalid login\<close>, and
  write nothing. A login on a banned account is answered \<open>Banned\<close>, whether or not the password
  verifies. A login with the right password on an account that is not banned creates the
  session row of the user with the submitted (lowercased, trimmed) username, provided the lazy
  page creation returns and the drawn token is not yet the token of a session.
\<close>

theorem login_replies:
  "(get_user_by_name d (login_name req) = None \<longrightarrow>
      post_login d e req = answer (Render ''login'' (Some ''Invalid login'')) d) \<and>
   (get_user_by_name d (login_name req) = Some usr \<and> \<not> banned usr \<and>
    \<not> bcrypt_compare e (login_password req) (password_hash usr) \<longrightarrow>
      post_login d e req = answer (Render ''login'' (Some ''Invalid login'')) d) \<and>
   (get_user_by_name d (login_name req) = Some usr \<and> banned usr \<longrightarrow>
      post_login d e req = answer (Render ''login'' (Some ''Banned'')) d) \<and>
   (get_user_by_name d (login_name req) = Some usr \<and> \<not> banned usr \<and>
    bcrypt_compare e (login_password req) (password_hash usr) \<and>
    (get_page_by_user d (user_id usr) \<noteq> None \<or>
       \<not> slug_taken (pages d) (candidate (nanoid6 e) (uniqueSlug (username usr)) n)) \<and>
    nanoid32 e \<notin> token ` set (sessions d) \<longrightarrow>
      resp (post_login d e req) = Redirect ''/dashboard'' \<and>
      set_cookie (post_login d e req) = SetCookie (nanoid32 e) \<and>
      sessions (store (post_login d e req)) =
        sessions d @ [\<lparr>token = nanoid32 e, sess_user_id = user_id usr,
                        sess_created_at = now_session e\<rparr>])"
proof (intro conjI impI)
  assume "get_user_by_name d (login_name req) = None"
  then show "post_login d e req = answer (Render ''login'' (Some ''Invalid login'')) d"
    by (rule post_login_unknown)
next
  assume "get_user_by_name d (login_name req) = Some usr \<and> \<not> banned usr \<and>
    \<not> bcrypt_compare e (login_password req) (password_hash usr)"
  then show "post_login d e req = answer (Render ''login'' (Some ''Invalid login'')) d"
    using post_login_wrong_password by blast
next
  assume "get_user_by_name d (login_name req) = Some usr \<and> banned usr"
  then show "post_login d e req = answer (Render ''login'' (Some ''Banned'')) d"
    using post_login_banned by blast
next
  assume a: "get_user_by_name d (login_name req) = Some usr \<and> \<not> banned usr \<and>
    bcrypt_compare e (login_password req) (password_hash usr) \<and>
    (get_page_by_user d (user_id usr) \<noteq> None \<or>
       \<not> slug_taken (pages d) (candidate (nanoid6 e) (uniqueSlug (username usr)) n)) \<and>
    nanoid32 e \<notin> token ` set (sessions d)"
  then have s: "resp (post_login d e req) = Redirect ''/dashboard'' \<and>
         set_cookie (post_login d e req) = SetCookie (nanoid32 e) \<and>
         sessions (store (post_login d e req)) = sessions d @ [new_session e (user_id usr)]"
    using post_login_success[of d req usr e n] by blast
  from s show "resp (post_login d e req) = Redirect ''/dashboard''" by blast
  from s show "set_cookie (post_login d e req) = SetCookie (nanoid32 e)" by blast
  from s show "sessions (store (post_login d e req)) =
        sessions d @ [\<lparr>token = nanoid32 e, sess_user_id = user_id usr,
                        sess_created_at = now_session e\<rparr>]"
    by (simp add: new_session_def)
qed


theorem login_witness:
  "get_user_by_name demo_db (login_name (login_request ''Nobody'' ''secret1'')) = None \<and>
   post_login demo_db demo_env (login_request ''Nobody'' ''secret1'') =
     answer (Render ''login'' (Some ''Invalid login'')) demo_db \<and>
   get_user_by_name demo_db (login_name (login_request '' ALICE '' ''wrong'')) =
     Some (demo_user 2 ''alice'' ''secret1'' False) \<and>
   post_login demo_db demo_env (login_request '' ALICE '' ''wrong'') =
     answer (Render ''login'' (Some ''Invalid login'')) demo_db \<and>
   get_user_by_name demo_db (login_name (login_request ''bob'' ''hunter22'')) =
     Some (demo_user 3 ''bob'' ''hunter22'' True) \<and>
   post_login demo_db demo_env (login_request ''bob'' ''hunter22'') =
     answer (Render ''login'' (Some ''Banned'')) demo_db \<and>
   resp (post_login demo_db demo_env (login_request '' ALICE '' ''secret1'')) = Redirect ''/dashboard'' \<and>
   sessions (store (post_login demo_db demo_env (login_request '' ALICE '' ''secret1''))) =
     sessions demo_db @ [\<lparr>token = nanoid32 demo_env, sess_user_id = 2,
                           sess_created_at = now_session demo_env\<rparr>]"
proof -
  let ?alice = "demo_user 2 ''alice'' ''secret1'' False"
  let ?bob = "demo_user 3 ''bob'' ''hunter22'' True"
  let ?r0 = "login_request ''Nobody'' ''secret1''"
  let ?r1 = "login_request '' ALICE '' ''wrong''"
  let ?r2 = "login_request ''bob'' ''hunter22''"
  let ?r3 = "login_request '' ALICE '' ''secret1''"
  have g0: "get_user_by_name demo_db (login_name ?r0) = None" by code_simp
  have g1: "get_user_by_name demo_db (login_name ?r1) = Some ?alice" by code_simp
  have g2: "get_user_by_name demo_db (login_name ?r2) = Some ?bob" by code_simp
  have g3: "get_user_by_name demo_db (login_name ?r3) = Some ?alice" by code_simp
  have nb: "\<not> banned ?alice" by code_simp
  have b: "banned ?bob" by code_simp
  have w1: "\<not> bcrypt_compare demo_env (login_password ?r1) (password_hash ?alice)" by code_simp
  have v3: "bcrypt_compare demo_env (login_password ?r3) (password_hash ?alice)" by code_simp
  have p3: "get_page_by_user demo_db (user_id ?alice) \<noteq> None" by code_simp
  have f3: "nanoid32 demo_env \<notin> token ` set (sessions demo_db)" by code_simp
  have id: "user_id ?alice = 2" by code_simp
  have a0: "post_login demo_db demo_env ?r0 = answer (Render ''login'' (Some ''Invalid login'')) demo_db"
    using login_replies[of demo_db ?r0 demo_env ?alice 0] g0 by blast
  have a1: "post_login demo_db demo_env ?r1 = answer (Render ''login'' (Some ''Invalid login'')) demo_db"
    using login_replies[of demo_db ?r1 demo_env ?alice 0] g1 nb w1 by blast
  have a2: "post_login demo_db demo_env ?r2 = answer (Render ''login'' (Some ''Banned'')) demo_db"
    using login_replies[of demo_db ?r2 demo_env ?bob 0] g2 b by blast
  have a3: "resp (post_login demo_db demo_env ?r3) = Redirect ''/dashboard'' \<and>
      sessions (store (post_login demo_db demo_env ?r3)) =
        sessions demo_db @ [\<lparr>token = nanoid32 demo_env, sess_user_id = user_id ?alice,
                        sess_created_at = now_session demo_env\<rparr>]"
    using login_replies[of demo_db ?r3 demo_env ?alice 0] g3 nb v3 p3 f3 by blast
  from g0 a0 g1 a1 g2 a2 a3 show ?thesis unfolding id by blast
qed

text \<open>
  As the specification words it, the property fails on a banned account: with a password that does not verify the
  reply is \<open>Banned\<close>, while the same request for an unknown username is answered
  \<open>Invalid login\<close>.
\<close>

theorem login_banned_counterexample:
  "get_user_by_name demo_db (login_name (login_request ''bob'' ''wrong'')) =
     Some (demo_user 3 ''bob'' ''hunter22'' True) \<and>
   \<not> bcrypt_compare demo_env (login_password (login_request ''bob'' ''wrong''))
        (password_hash (demo_user 3 ''bob'' ''hunter22'' True)) \<and>
   post_login demo_db demo_env (login_request ''bob'' ''wrong'') =
     answer (Render ''login'' (Some ''Banned'')) demo_db \<and>
   get_user_by_name demo_db (login_name (login_request ''nobody'' ''wrong'')) = None \<and>
   post_login demo_db demo_env (login_request ''nobody'' ''wrong'') =
     answer (Render ''login'' (Some ''Invalid login'')) demo_db"
proof -
  let ?bob = "demo_user 3 ''bob'' ''hunter22'' True"
  let ?rb = "login_request ''bob'' ''wrong''"
  let ?rn = "login_request ''nobody'' ''wrong''"
  have g: "get_user_by_name demo_db (login_name ?rb) = Some ?bob" by code_simp
  have w: "\<not> bcrypt_compare demo_env (login_password ?rb) (password_hash ?bob)" by code_simp
  have b: "banned ?bob" by code_simp
  have g0: "get_user_by_name demo_db (login_name ?rn) = None" by code_simp
  have a: "post_login demo_db demo_env ?rb = answer (Render ''login'' (Some ''Banned'')) demo_db"
    by (rule post_login_banned[OF g b])
  have a0: "post_login demo_db demo_env ?rn = answer (Render ''login'' (Some ''Invalid login'')) demo_db"
    by (rule post_login_unknown[OF g0])
  from g w a g0 a0 show ?thesis by blast
qed

text \<open>
  C2 (amended). When the administrator impersonates an existing user \<open>u\<close> (with a fresh
  token), the handler adds a session for \<open>u\<close> and an impersonation record with the same token
  that names the administrator; the administrator's own session still resolves to the
  administrator. A following \<open>/admin/return\<close> with the borrowed token, when \<open>u\<close> is not banned,
  deletes that session and that record and inserts a session for the administrator under a
  newly drawn token, which is the new cookie and is not the token of the administrator's
  earlier session (a draw that is already a session token makes the insert fail, and no
  cookie is set). When \<open>u\<close> is banned, \<open>requireAuth\<close> answers the return request 403 and
  nothing is deleted.
\<close>

theorem impersonation_round_trip:
  assumes admin: "getUserFromCookie d (cookie req) = Some a" "user_id a = 1" "\<not> banned a"
    and target: "param_id req = Some i" "i \<noteq> 0" "get_user_by_id d i = Some u"
    and fresh: "nanoid32 e \<noteq> []" "nanoid32 e \<notin> token ` set (sessions d)"
      "nanoid32 e \<notin> imp_token ` set (impersonations d)"
    and borrowed: "cookie req2 = Some (nanoid32 e)"
  shows "resp (post_impersonate d e req) = Redirect ''/dashboard'' \<and>
         set_cookie (post_impersonate d e req) = SetCookie (nanoid32 e) \<and>
         sessions (store (post_impersonate d e req)) =
           sessions d @ [\<lparr>token = nanoid32 e, sess_user_id = i, sess_created_at = now_session e\<rparr>] \<and>
         impersonations (store (post_impersonate d e req)) =
           impersonations d @
             [\<lparr>imp_token = nanoid32 e, admin_user_id = 1, imp_created_at = now_imp e\<rparr>] \<and>
         getUserFromCookie (store (post_impersonate d e req)) (cookie req) = Some a \<and>
         getUserFromCookie (store (post_impersonate d e req)) (Some (nanoid32 e)) = Some u \<and>
         (\<not> banned u \<and> nanoid32 e2 \<noteq> [] \<and> nanoid32 e2 \<notin> token ` set (sessions d) \<longrightarrow>
            resp (post_return (store (post_impersonate d e req)) e2 req2) = Redirect ''/admin/users'' \<and>
            set_cookie (post_return (store (post_impersonate d e req)) e2 req2) =
              SetCookie (nanoid32 e2) \<and>
            sessions (store (post_return (store (post_impersonate d e req)) e2 req2)) =
              sessions d @
                [\<lparr>token = nanoid32 e2, sess_user_id = 1, sess_created_at = now_session e2\<rparr>] \<and>
            impersonations (store (post_return (store (post_impersonate d e req)) e2 req2)) =
              impersonations d \<and>
            getUserFromCookie (store (post_return (store (post_impersonate d e req)) e2 req2))
              (Some (nanoid32 e2)) = Some a \<and>
            cookie req \<noteq> Some (nanoid32 e2)) \<and>
         (\<not> banned u \<and> nanoid32 e2 \<in> token ` set (sessions d) \<longrightarrow>
            post_return (store (post_impersonate d e req)) e2 req2 = answer (Unhandled UniqueViolation) d) \<and>
         (banned u \<longrightarrow>
            post_return (store (post_impersonate d e req)) e2 req2 =
              answer (Status 403 ''Banned'') (store (post_impersonate d e req)))"
proof -
  let ?d1 = "d\<lparr>sessions := sessions d @ [new_session e i],
                impersonations := impersonations d @ [new_impersonation e 1]\<rparr>"
  have imp: "post_impersonate d e req =
           \<lparr>resp = Redirect ''/dashboard'', set_cookie = SetCookie (nanoid32 e), store = ?d1\<rparr>"
    by (rule post_impersonate_admin[OF admin target fresh(2,3)])
  have st: "store (post_impersonate d e req) = ?d1" by (simp add: imp)
  have a1: "getUserFromCookie ?d1 (cookie req) = Some a"
    by (rule getUser_more_sessions[OF admin(1)]) simp_all
  note ims = impersonated_store[OF fresh refl, of i]
  have u1: "getUserFromCookie ?d1 (cookie req2) = Some u"
    unfolding borrowed ims(3) by (rule target(3))
  have a_id: "get_user_by_id d 1 = Some a"
    using getUser_id[OF admin(1)] admin(2) by simp
  from admin(1) obtain tA where tA: "cookie req = Some tA"
    using getUser_cookie by blast
  with admin(1) have tA_known: "tA \<in> token ` set (sessions d)"
    by (auto dest: getUser_token_known)
  have ret: "\<not> banned u \<Longrightarrow> post_return ?d1 e2 req2 =
     (case insert_session d (new_session e2 1) of
        Inl err \<Rightarrow> answer (Unhandled err) d
      | Inr d3 \<Rightarrow> \<lparr>resp = Redirect ''/admin/users'', set_cookie = SetCookie (nanoid32 e2),
                    store = d3\<rparr>)"
    using post_return_borrowed[OF u1 _ borrowed ims(1), of e2] unfolding ims(2) by simp
  have ok: "resp (post_return ?d1 e2 req2) = Redirect ''/admin/users'' \<and>
            set_cookie (post_return ?d1 e2 req2) = SetCookie (nanoid32 e2) \<and>
            sessions (store (post_return ?d1 e2 req2)) = sessions d @ [new_session e2 1] \<and>
            impersonations (store (post_return ?d1 e2 req2)) = impersonations d \<and>
            getUserFromCookie (store (post_return ?d1 e2 req2)) (Some (nanoid32 e2)) = Some a \<and>
            cookie req \<noteq> Some (nanoid32 e2)"
    if nb: "\<not> banned u" and ne: "nanoid32 e2 \<noteq> []"
      and fr: "nanoid32 e2 \<notin> token ` set (sessions d)"
  proof -
    have ins: "insert_session d (new_session e2 1) = Inr (d\<lparr>sessions := sessions d @ [new_session e2 1]\<rparr>)"
      by (rule insert_session_fresh) (simp add: fr)
    have r: "post_return ?d1 e2 req2 =
        \<lparr>resp = Redirect ''/admin/users'', set_cookie = SetCookie (nanoid32 e2),
         store = d\<lparr>sessions := sessions d @ [new_session e2 1]\<rparr>\<rparr>"
      unfolding ret[OF nb] ins by simp
    have "getUserFromCookie (d\<lparr>sessions := sessions d @ [new_session e2 1]\<rparr>) (Some (nanoid32 e2)) =
            get_user_by_id d (sess_user_id (new_session e2 1))"
      by (rule getUser_new_session[OF ne fr]) simp_all
    then have g: "getUserFromCookie (d\<lparr>sessions := sessions d @ [new_session e2 1]\<rparr>)
                    (Some (nanoid32 e2)) = Some a"
      using a_id by simp
    have "tA \<noteq> nanoid32 e2" using tA_known fr by blast
    then show ?thesis unfolding r using g tA by simp
  qed
  have clash: "post_return ?d1 e2 req2 = answer (Unhandled UniqueViolation) d"
    if nb: "\<not> banned u" and cl: "nanoid32 e2 \<in> token ` set (sessions d)"
  proof -
    have "insert_session d (new_session e2 1) = Inl UniqueViolation"
      by (rule insert_session_clash) (simp add: cl)
    then show ?thesis unfolding ret[OF nb] by simp
  qed
  have blocked: "post_return ?d1 e2 req2 = answer (Status 403 ''Banned'') ?d1" if b: "banned u"
    unfolding post_return_def by (rule with_auth_banned[OF u1 b])
  have u1': "getUserFromCookie ?d1 (Some (nanoid32 e)) = Some u"
    unfolding ims(3) by (rule target(3))
  show ?thesis
    unfolding st using imp a1 u1' ok clash blocked
    by (simp add: new_session_def new_impersonation_def)
qed


theorem impersonation_witness:
  "getUserFromCookie demo_db (cookie (admin_request PostImpersonate 2 Map.empty)) =
     Some (demo_user 1 ''iqsm'' ''Indi2017!!::'' False) \<and>
   get_user_by_id demo_db 2 = Some (demo_user 2 ''alice'' ''secret1'' False) \<and>
   nanoid32 demo_env \<notin> token ` set (sessions demo_db) \<and>
   nanoid32 demo_env \<notin> imp_token ` set (impersonations demo_db) \<and>
   nanoid32 demo_env2 \<notin> token ` set (sessions demo_db) \<and>
   getUserFromCookie (store (post_impersonate demo_db demo_env (admin_request PostImpersonate 2 Map.empty)))
     (Some (nanoid32 demo_env)) = Some (demo_user 2 ''alice'' ''secret1'' False) \<and>
   getUserFromCookie (store (post_impersonate demo_db demo_env (admin_request PostImpersonate 2 Map.empty)))
     (Some ''admin-session-token'') = Some (demo_user 1 ''iqsm'' ''Indi2017!!::'' False) \<and>
   resp (post_return (store (post_impersonate demo_db demo_env
                                (admin_request PostImpersonate 2 Map.empty)))
           demo_env2 (return_request (nanoid32 demo_env))) = Redirect ''/admin/users'' \<and>
   set_cookie (post_return (store (post_impersonate demo_db demo_env
                                (admin_request PostImpersonate 2 Map.empty)))
           demo_env2 (return_request (nanoid32 demo_env))) = SetCookie (nanoid32 demo_env2) \<and>
   impersonations (store (post_return (store (post_impersonate demo_db demo_env
                                (admin_request PostImpersonate 2 Map.empty)))
           demo_env2 (return_request (nanoid32 demo_env)))) = impersonations demo_db \<and>
   getUserFromCookie (store (post_return (store (post_impersonate demo_db demo_env
                                (admin_request PostImpersonate 2 Map.empty)))
           demo_env2 (return_request (nanoid32 demo_env))))
     (Some (nanoid32 demo_env2)) = Some (demo_user 1 ''iqsm'' ''Indi2017!!::'' False)"
proof -
  let ?req = "admin_request PostImpersonate 2 Map.empty"
  let ?rr = "return_request (nanoid32 demo_env)"
  let ?a = "demo_user 1 ''iqsm'' ''Indi2017!!::'' False"
  let ?u = "demo_user 2 ''alice'' ''secret1'' False"
  have h1: "getUserFromCookie demo_db (cookie ?req) = Some ?a" by code_simp
  have h2: "user_id ?a = 1" by code_simp
  have h3: "\<not> banned ?a" by code_simp
  have h4: "param_id ?req = Some 2" by code_simp
  have h5: "(2::int) \<noteq> 0" by simp
  have h6: "get_user_by_id demo_db 2 = Some ?u" by code_simp
  have h7: "nanoid32 demo_env \<noteq> []" by code_simp
  have h8: "nanoid32 demo_env \<notin> token ` set (sessions demo_db)" by code_simp
  have h9: "nanoid32 demo_env \<notin> imp_token ` set (impersonations demo_db)" by code_simp
  have h10: "cookie ?rr = Some (nanoid32 demo_env)" by code_simp
  have nb: "\<not> banned ?u" by code_simp
  have ne: "nanoid32 demo_env2 \<noteq> []" by code_simp
  have fr: "nanoid32 demo_env2 \<notin> token ` set (sessions demo_db)" by code_simp
  have ck: "cookie ?req = Some ''admin-session-token''" by code_simp
  note inst = impersonation_round_trip[OF h1 h2 h3 h4 h5 h6 h7 h8 h9 h10, of demo_env2]
  from inst nb ne fr h1 h6 h8 h9 show ?thesis unfolding ck by blast
qed

text \<open>
  As the specification words it, the property fails when the impersonated user is banned: the impersonation succeeds,
  but the return request, made with the borrowed session, is stopped by \<open>requireAuth\<close>; the
  borrowed session and the impersonation record stay.
\<close>

theorem impersonation_banned_counterexample:
  "getUserFromCookie demo_db (cookie (admin_request PostImpersonate 3 Map.empty)) =
     Some (demo_user 1 ''iqsm'' ''Indi2017!!::'' False) \<and>
   get_user_by_id demo_db 3 = Some (demo_user 3 ''bob'' ''hunter22'' True) \<and>
   resp (post_impersonate demo_db demo_env (admin_request PostImpersonate 3 Map.empty)) =
     Redirect ''/dashboard'' \<and>
   set_cookie (post_impersonate demo_db demo_env (admin_request PostImpersonate 3 Map.empty)) =
     SetCookie (nanoid32 demo_env) \<and>
   post_return (store (post_impersonate demo_db demo_env (admin_request PostImpersonate 3 Map.empty)))
       demo_env2 (return_request (nanoid32 demo_env)) =
     answer (Status 403 ''Banned'')
       (store (post_impersonate demo_db demo_env (admin_request PostImpersonate 3 Map.empty))) \<and>
   get_session (store (post_impersonate demo_db demo_env (admin_request PostImpersonate 3 Map.empty)))
       (nanoid32 demo_env) \<noteq> None \<and>
   get_impersonation (store (post_impersonate demo_db demo_env (admin_request PostImpersonate 3 Map.empty)))
       (nanoid32 demo_env) \<noteq> None"
proof (intro conjI)
  let ?req = "admin_request PostImpersonate 3 Map.empty"
  let ?d1 = "store (post_impersonate demo_db demo_env ?req)"
  show "getUserFromCookie demo_db (cookie ?req) = Some (demo_user 1 ''iqsm'' ''Indi2017!!::'' False)"
    by code_simp
  show "get_user_by_id demo_db 3 = Some (demo_user 3 ''bob'' ''hunter22'' True)" by code_simp
  show "resp (post_impersonate demo_db demo_env ?req) = Redirect ''/dashboard''" by code_simp
  show "set_cookie (post_impersonate demo_db demo_env ?req) = SetCookie (nanoid32 demo_env)"
    by code_simp
  show "post_return ?d1 demo_env2 (return_request (nanoid32 demo_env)) =
          answer (Status 403 ''Banned'') ?d1"
    by code_simp
  show "get_session ?d1 (nanoid32 demo_env) \<noteq> None" by code_simp
  show "get_impersonation ?d1 (nanoid32 demo_env) \<noteq> None" by code_simp
qed

text \<open>
  C8. The token of every impersonation record is the token of a stored session. This holds
  in the empty store, and every request keeps it, so it holds along every run: the
  impersonation handler inserts the session before the record, logout and return delete the
  two together, and no other handler deletes a session or writes an impersonation.
\<close>

theorem impersonations_have_sessions:
  "imp_inv empty_db \<and>
   (imp_inv d \<longrightarrow> imp_inv (store (handle d e req))) \<and>
   (imp_inv d \<longrightarrow> imp_inv (run_requests d rs)) \<and>
   imp_inv d = (\<forall>r\<in>set (impersonations d). \<exists>s\<in>set (sessions d). token s = imp_token r)"
proof (intro conjI impI)
  show "imp_inv empty_db" by (simp add: imp_inv_def empty_db_def)
  show "imp_inv d = (\<forall>r\<in>set (impersonations d). \<exists>s\<in>set (sessions d). token s = imp_token r)"
    unfolding imp_inv_def list_all_iff by (simp add: image_iff Bex_def) metis
next
  assume "imp_inv d"
  then show "imp_inv (store (handle d e req))" by (rule handle_imp_inv)
next
  assume "imp_inv d"
  then show "imp_inv (run_requests d rs)" by (rule run_requests_imp_inv)
qed


theorem impersonations_witness:
  "imp_inv demo_db \<and>
   impersonations (store (handle demo_db demo_env (admin_request PostImpersonate 2 Map.empty))) \<noteq> [] \<and>
   imp_inv (store (handle demo_db demo_env (admin_request PostImpersonate 2 Map.empty))) \<and>
   imp_inv (run_requests demo_db
              [(demo_env, admin_request PostImpersonate 2 Map.empty),
               (demo_env, demo_request PostLogout (Some (nanoid32 demo_env)) Map.empty)]) \<and>
   impersonations (run_requests demo_db
              [(demo_env, admin_request PostImpersonate 2 Map.empty),
               (demo_env, demo_request PostLogout (Some (nanoid32 demo_env)) Map.empty)]) = [] \<and>
   get_session (run_requests demo_db
              [(demo_env, admin_request PostImpersonate 2 Map.empty),
               (demo_env, demo_request PostLogout (Some (nanoid32 demo_env)) Map.empty)])
     (nanoid32 demo_env) = None"
proof -
  let ?imp = "admin_request PostImpersonate 2 Map.empty"
  let ?rs = "[(demo_env, ?imp), (demo_env, demo_request PostLogout (Some (nanoid32 demo_env)) Map.empty)]"
  have i0: "imp_inv demo_db" by code_simp
  have ne: "impersonations (store (handle demo_db demo_env ?imp)) \<noteq> []" by code_simp
  have em: "impersonations (run_requests demo_db ?rs) = []" by code_simp
  have gs: "get_session (run_requests demo_db ?rs) (nanoid32 demo_env) = None" by code_simp
  note inst = impersonations_have_sessions[of demo_db demo_env ?imp ?rs]
  from inst i0 have i1: "imp_inv (store (handle demo_db demo_env ?imp))" by blast
  from inst i0 have i2: "imp_inv (run_requests demo_db ?rs)" by blast
  from i0 ne i1 i2 em gs show ?thesis by blast
qed

text \<open>
  C1 (amended). A signup with a valid username, a password of at least 6 characters and an
  invite key that is stored with \<open>used_by\<close> unset, when no write fails (the username is new, the
  drawn token is no session token) and the slug search returns, creates exactly one user row,
  one session row and one page row, and sets \<open>used_by\<close> of the key to the id of the new
  user. After that, whatever requests are handled in between, every signup presenting the
  same key fails and writes nothing; with a valid username and password its error is the
  invalid-invite error. (Every page belongs to a stored user: the foreign key of \<open>pages\<close>.)
\<close>

theorem signup_consumes_the_invite:
  assumes v: "signup_name req = Some uname" "6 \<le> length (signup_password req)"
      "get_invite d (signup_invite req) = Some row" "used_by row = None"
    and nofail: "uname \<notin> username ` set (users d)" "nanoid32 e \<notin> token ` set (sessions d)"
    and fk: "pages_have_users d"
    and free: "\<not> slug_taken (pages d) (candidate (nanoid6 e) (uniqueSlug uname) n)"
    and again: "signup_invite req2 = signup_invite req"
  shows "resp (post_signup d e req) = Redirect ''/dashboard'' \<and>
         set_cookie (post_signup d e req) = SetCookie (nanoid32 e) \<and>
         users (store (post_signup d e req)) =
           users d @ [new_user d e uname (signup_password req)] \<and>
         sessions (store (post_signup d e req)) =
           sessions d @ [new_session e (next_user_id d)] \<and>
         (\<exists>s. pages (store (post_signup d e req)) =
                pages d @ [new_page e (next_user_id d) uname s] \<and> \<not> slug_taken (pages d) s) \<and>
         impersonations (store (post_signup d e req)) = impersonations d \<and>
         invite_keys (store (post_signup d e req)) =
           map (\<lambda>r. if key r = signup_invite req
                     then r\<lparr>used_by := Some (next_user_id d), used_at := Some (now_invite e)\<rparr>
                     else r) (invite_keys d) \<and>
         get_invite (store (post_signup d e req)) (signup_invite req) =
           Some (row\<lparr>used_by := Some (next_user_id d), used_at := Some (now_invite e)\<rparr>) \<and>
         (\<exists>msg. post_signup (run_requests (store (post_signup d e req)) rs) e2 req2 =
                  answer (Render ''signup'' (Some msg))
                    (run_requests (store (post_signup d e req)) rs)) \<and>
         (signup_name req2 \<noteq> None \<and> 6 \<le> length (signup_password req2) \<longrightarrow>
            post_signup (run_requests (store (post_signup d e req)) rs) e2 req2 =
              answer (Render ''signup'' (Some ''Invalid invite key''))
                (run_requests (store (post_signup d e req)) rs))"
proof -
  let ?d' = "store (post_signup d e req)"
  let ?k = "signup_invite req"
  let ?u = "update_invite_used d (next_user_id d) (now_invite e) ?k"
  note ok = post_signup_success[OF v nofail fk free]
  from ok have keys: "invite_keys ?d' = invite_keys ?u" by blast
  have nz: "next_user_id d \<noteq> 0" using next_user_id_pos[of d] by simp
  have gi: "get_invite ?d' ?k =
              Some (row\<lparr>used_by := Some (next_user_id d), used_at := Some (now_invite e)\<rparr>)"
    using get_invite_after_update[OF v(3), of "next_user_id d" "now_invite e"] keys
    by (simp add: get_invite_def)
  have "invite_spent ?d' ?k"
    using gi nz by (simp add: invite_spent_def used_by_truthy_def)
  then have sp: "invite_spent (run_requests ?d' rs) (signup_invite req2)"
    unfolding again by (rule run_requests_invite_spent)
  have rej: "\<exists>msg. post_signup (run_requests ?d' rs) e2 req2 =
                  answer (Render ''signup'' (Some msg)) (run_requests ?d' rs)"
    by (rule invite_spent_rejects[OF sp])
  have inv: "post_signup (run_requests ?d' rs) e2 req2 =
              answer (Render ''signup'' (Some ''Invalid invite key'')) (run_requests ?d' rs)"
    if "signup_name req2 \<noteq> None \<and> 6 \<le> length (signup_password req2)"
    using post_signup_spent[OF sp] that by blast
  have km: "invite_keys ?u = map (\<lambda>r. if key r = ?k
                     then r\<lparr>used_by := Some (next_user_id d), used_at := Some (now_invite e)\<rparr>
                     else r) (invite_keys d)"
    by (simp add: update_invite_used_def)
  from ok keys km gi rej inv show ?thesis by (simp only: simp_thms) blast
qed


theorem signup_witness:
  "signup_name (signup_request '' Carol '' ''secret1'' ''FRESHKEY01 '') = Some ''carol'' \<and>
   get_invite demo_db (signup_invite (signup_request '' Carol '' ''secret1'' ''FRESHKEY01 '')) =
     Some \<lparr>key = ''FRESHKEY01'', created_by = 1, used_by = None, used_at = None,
           key_created_at = ''2023-12-31T00:00:00.000Z''\<rparr> \<and>
   pages_have_users demo_db \<and>
   resp (post_signup demo_db demo_env (signup_request '' Carol '' ''secret1'' ''FRESHKEY01 '')) =
     Redirect ''/dashboard'' \<and>
   sessions (store (post_signup demo_db demo_env
                      (signup_request '' Carol '' ''secret1'' ''FRESHKEY01 ''))) =
     sessions demo_db @ [new_session demo_env (next_user_id demo_db)] \<and>
   next_user_id demo_db = 4 \<and>
   post_signup
     (run_requests (store (post_signup demo_db demo_env
                             (signup_request '' Carol '' ''secret1'' ''FRESHKEY01 '')))
        [(demo_env2, login_request ''alice'' ''secret1'')])
     demo_env2 (signup_request ''dave'' ''secret2'' ''FRESHKEY01'') =
   answer (Render ''signup'' (Some ''Invalid invite key''))
     (run_requests (store (post_signup demo_db demo_env
                             (signup_request '' Carol '' ''secret1'' ''FRESHKEY01 '')))
        [(demo_env2, login_request ''alice'' ''secret1'')])"
proof -
  let ?req = "signup_request '' Carol '' ''secret1'' ''FRESHKEY01 ''"
  let ?req2 = "signup_request ''dave'' ''secret2'' ''FRESHKEY01''"
  let ?row = "\<lparr>key = ''FRESHKEY01'', created_by = 1, used_by = None, used_at = None,
           key_created_at = ''2023-12-31T00:00:00.000Z''\<rparr>"
  let ?rs = "[(demo_env2, login_request ''alice'' ''secret1'')]"
  have h1: "signup_name ?req = Some ''carol''" by code_simp
  have h2: "6 \<le> length (signup_password ?req)" by code_simp
  have h3: "get_invite demo_db (signup_invite ?req) = Some ?row" by code_simp
  have h4: "used_by ?row = None" by simp
  have h5: "''carol'' \<notin> username ` set (users demo_db)" by code_simp
  have h6: "nanoid32 demo_env \<notin> token ` set (sessions demo_db)" by code_simp
  have h7: "pages_have_users demo_db" by code_simp
  have u: "uniqueSlug ''carol'' = ''carol''" by code_simp
  have c: "candidate (nanoid6 demo_env) ''carol'' 0 = ''carol''" by (simp add: candidate_def)
  have t: "\<not> slug_taken (pages demo_db) ''carol''" by code_simp
  have h8: "\<not> slug_taken (pages demo_db) (candidate (nanoid6 demo_env) (uniqueSlug ''carol'') 0)"
    by (simp only: u c t not_False_eq_True)
  have h9: "signup_invite ?req2 = signup_invite ?req" by code_simp
  have n2: "signup_name ?req2 \<noteq> None \<and> 6 \<le> length (signup_password ?req2)" by code_simp
  have nx: "next_user_id demo_db = 4" by code_simp
  note inst = signup_consumes_the_invite[OF h1 h2 h3 h4 h5 h6 h7 h8 h9, of ?rs demo_env2]
  from inst n2 h1 h3 h7 nx show ?thesis by blast
qed

text \<open>
  As the specification words it, the property fails for a later signup whose username or password is malformed: it
  presents the used key and fails, but with the error of the first check that rejects it.
\<close>

theorem signup_reuse_counterexample:
  "resp (post_signup demo_db demo_env (signup_request ''carol'' ''secret1'' ''FRESHKEY01'')) =
     Redirect ''/dashboard'' \<and>
   signup_invite (signup_request ''ab'' ''secret2'' ''FRESHKEY01'') =
     signup_invite (signup_request ''carol'' ''secret1'' ''FRESHKEY01'') \<and>
   post_signup (store (post_signup demo_db demo_env (signup_request ''carol'' ''secret1'' ''FRESHKEY01'')))
       demo_env2 (signup_request ''ab'' ''secret2'' ''FRESHKEY01'') =
     answer (Render ''signup'' (Some ''Username: 3-20 chars, a-z 0-9 _''))
       (store (post_signup demo_db demo_env (signup_request ''carol'' ''secret1'' ''FRESHKEY01''))) \<and>
   post_signup (store (post_signup demo_db demo_env (signup_request ''carol'' ''secret1'' ''FRESHKEY01'')))
       demo_env2 (signup_request ''dave'' ''12345'' ''FRESHKEY01'') =
     answer (Render ''signup'' (Some ''Password must be 6+ chars''))
       (store (post_signup demo_db demo_env (signup_request ''carol'' ''secret1'' ''FRESHKEY01'')))"
proof (intro conjI)
  let ?req = "signup_request ''carol'' ''secret1'' ''FRESHKEY01''"
  let ?d1 = "store (post_signup demo_db demo_env ?req)"
  show "resp (post_signup demo_db demo_env ?req) = Redirect ''/dashboard''" by code_simp
  show "signup_invite (signup_request ''ab'' ''secret2'' ''FRESHKEY01'') = signup_invite ?req"
    by code_simp
  show "post_signup ?d1 demo_env2 (signup_request ''ab'' ''secret2'' ''FRESHKEY01'') =
     answer (Render ''signup'' (Some ''Username: 3-20 chars, a-z 0-9 _'')) ?d1"
    by code_simp
  show "post_signup ?d1 demo_env2 (signup_request ''dave'' ''12345'' ''FRESHKEY01'') =
     answer (Render ''signup'' (Some ''Password must be 6+ chars'')) ?d1"
    by code_simp
qed

end
